theory Spec2Isabelle
  imports Main "HOL-Library.Word"
begin

unbundle bit_operations_syntax

section \<open>The perf event reader of \<open>vendor/github.com/cilium/ebpf/perf/reader.go\<close>\<close>

text \<open>
  The reader decodes records of the kernel's perf event rings and multiplexes the
  per-CPU rings behind one blocking \<open>Read\<close>. The functions of \<open>reader.go\<close> are embedded
  one by one, under their own names. Go's \<open>int\<close> is taken to be 64 bits wide, as on
  amd64 and arm64; the values that pass through it here (CPU numbers, file
  descriptors, lengths) are modelled as \<open>int\<close> and \<open>nat\<close>, and every conversion to a
  fixed width (\<open>uint32(i)\<close>, \<open>int32(fd)\<close>) is written as a conversion to a word.
\<close>

subsection \<open>Errors\<close>

text \<open>
  Go errors as values. \<open>errClosed\<close> and \<open>errEOR\<close> are the two package-level values
  of \<open>reader.go\<close>; they are compared by identity (\<open>err == errEOR\<close>), which is
  constructor equality here. \<open>ErrorsNew\<close> is any other value made by \<open>errors.New\<close>
  or \<open>errors.Errorf\<close>, \<open>Errno\<close> is a \<open>syscall.Errno\<close> as the \<open>unix\<close> package
  returns it, \<open>IoEOF\<close> and \<open>IoErrUnexpectedEOF\<close> are the two values of package \<open>io\<close>.
  \<open>Wrapped\<close> is what \<open>errors.Wrap\<close> and \<open>errors.Wrapf\<close> of \<open>github.com/pkg/errors\<close>
  build: the cause, the format string and the arguments that are formatted into the
  message.
\<close>

datatype error =
    errClosed
  | errEOR
  | IoEOF
  | IoErrUnexpectedEOF
  | Errno nat
  | ErrorsNew string "int list"
  | unknownEventError "32 word"
  | Wrapped error string "int list"

text \<open>\<open>errors.Wrap\<close> and \<open>errors.Wrapf\<close> return \<open>nil\<close> for a \<open>nil\<close> error.\<close>

definition Wrapf :: "error option \<Rightarrow> string \<Rightarrow> int list \<Rightarrow> error option" where
  "Wrapf err format args = (case err of None \<Rightarrow> None | Some e \<Rightarrow> Some (Wrapped e format args))"

definition Wrap :: "error option \<Rightarrow> string \<Rightarrow> error option" where
  "Wrap err message = Wrapf err message []"

text \<open>\<open>errors.Cause\<close> follows the chain of wrappers down to the first error that has no cause.\<close>

fun Cause :: "error \<Rightarrow> error" where
  "Cause (Wrapped e format args) = Cause e"
| "Cause e = e"

definition IsClosed :: "error \<Rightarrow> bool" where
  "IsClosed err = (Cause err = errClosed)"

definition IsUnknownEvent :: "error \<Rightarrow> bool" where
  "IsUnknownEvent err = (case Cause err of unknownEventError t \<Rightarrow> True | _ \<Rightarrow> False)"

text \<open>
  \<open>Read\<close> asks an error for the method \<open>Temporary() bool\<close>. Of the errors above only
  \<open>syscall.Errno\<close> has it: true for \<open>EINTR\<close> (4), \<open>EMFILE\<close> (24), \<open>ENFILE\<close> (23)
  and the timeouts \<open>EAGAIN\<close> = \<open>EWOULDBLOCK\<close> (11) and \<open>ETIMEDOUT\<close> (110).
\<close>

definition Temporary :: "error \<Rightarrow> bool" where
  "Temporary err =
     (case err of Errno e \<Rightarrow> e = 4 \<or> e = 24 \<or> e = 23 \<or> e = 11 \<or> e = 110 | _ \<Rightarrow> False)"

subsection \<open>Bytes and byte order\<close>

type_synonym byte = "8 word"

text \<open>
  \<open>internal.NativeEndian\<close> is one of the two byte orders of \<open>encoding/binary\<close>, fixed
  by the platform the package is built for. The decoders are the expressions of
  \<open>binary.LittleEndian\<close> and \<open>binary.BigEndian\<close>; they are only called on slices of
  the right length.
\<close>

datatype ByteOrder = LittleEndian | BigEndian

definition le_Uint16 :: "byte list \<Rightarrow> 16 word" where
  "le_Uint16 b = ucast (b ! 0) OR push_bit 8 (ucast (b ! 1))"

definition le_Uint32 :: "byte list \<Rightarrow> 32 word" where
  "le_Uint32 b = ucast (b ! 0) OR push_bit 8 (ucast (b ! 1)) OR push_bit 16 (ucast (b ! 2))
                 OR push_bit 24 (ucast (b ! 3))"

definition le_Uint64 :: "byte list \<Rightarrow> 64 word" where
  "le_Uint64 b = ucast (b ! 0) OR push_bit 8 (ucast (b ! 1)) OR push_bit 16 (ucast (b ! 2))
                 OR push_bit 24 (ucast (b ! 3)) OR push_bit 32 (ucast (b ! 4))
                 OR push_bit 40 (ucast (b ! 5)) OR push_bit 48 (ucast (b ! 6))
                 OR push_bit 56 (ucast (b ! 7))"

definition Uint16 :: "ByteOrder \<Rightarrow> byte list \<Rightarrow> 16 word" where
  "Uint16 order b = (case order of LittleEndian \<Rightarrow> le_Uint16 b | BigEndian \<Rightarrow> le_Uint16 (rev b))"

definition Uint32 :: "ByteOrder \<Rightarrow> byte list \<Rightarrow> 32 word" where
  "Uint32 order b = (case order of LittleEndian \<Rightarrow> le_Uint32 b | BigEndian \<Rightarrow> le_Uint32 (rev b))"

definition Uint64 :: "ByteOrder \<Rightarrow> byte list \<Rightarrow> 64 word" where
  "Uint64 order b = (case order of LittleEndian \<Rightarrow> le_Uint64 b | BigEndian \<Rightarrow> le_Uint64 (rev b))"

text \<open>
  The encoders \<open>PutUint16\<close>, \<open>PutUint32\<close> and \<open>PutUint64\<close> of the same package. The
  reader uses \<open>PutUint64\<close> in \<open>Close\<close>; the others lay out the synthetic records
  that the round-trip properties decode.
\<close>

definition le_PutUint16 :: "16 word \<Rightarrow> byte list" where
  "le_PutUint16 v = [ucast v, ucast (drop_bit 8 v)]"

definition le_PutUint32 :: "32 word \<Rightarrow> byte list" where
  "le_PutUint32 v = [ucast v, ucast (drop_bit 8 v), ucast (drop_bit 16 v), ucast (drop_bit 24 v)]"

definition le_PutUint64 :: "64 word \<Rightarrow> byte list" where
  "le_PutUint64 v = [ucast v, ucast (drop_bit 8 v), ucast (drop_bit 16 v), ucast (drop_bit 24 v),
                     ucast (drop_bit 32 v), ucast (drop_bit 40 v), ucast (drop_bit 48 v),
                     ucast (drop_bit 56 v)]"

definition PutUint16 :: "ByteOrder \<Rightarrow> 16 word \<Rightarrow> byte list" where
  "PutUint16 order v = (case order of LittleEndian \<Rightarrow> le_PutUint16 v | BigEndian \<Rightarrow> rev (le_PutUint16 v))"

definition PutUint32 :: "ByteOrder \<Rightarrow> 32 word \<Rightarrow> byte list" where
  "PutUint32 order v = (case order of LittleEndian \<Rightarrow> le_PutUint32 v | BigEndian \<Rightarrow> rev (le_PutUint32 v))"

definition PutUint64 :: "ByteOrder \<Rightarrow> 64 word \<Rightarrow> byte list" where
  "PutUint64 order v = (case order of LittleEndian \<Rightarrow> le_PutUint64 v | BigEndian \<Rightarrow> rev (le_PutUint64 v))"

subsection \<open>Reading from an \<open>io.Reader\<close>\<close>

text \<open>
  \<open>readRecord\<close> reads from an \<open>io.Reader\<close>. A reader over a finite input is the list
  of bytes it has still to deliver. \<open>io.ReadFull(rd, buf)\<close> fills \<open>buf\<close>, of length
  \<open>n\<close>, from it: with \<open>n\<close> bytes left it takes them and returns no error (also for
  \<open>n = 0\<close>, where it does not read at all); with no byte left it returns \<open>io.EOF\<close>;
  with some but fewer than \<open>n\<close> it copies what there is, leaves the rest of the
  zero-initialised buffer as it was and returns \<open>io.ErrUnexpectedEOF\<close>. The result
  is the buffer, the error and the reader afterwards.
\<close>

type_synonym reader = "byte list"

definition ReadFull :: "reader \<Rightarrow> nat \<Rightarrow> byte list \<times> error option \<times> reader" where
  "ReadFull rd n =
     (if n \<le> length rd then (take n rd, None, drop n rd)
      else if rd = [] then (replicate n 0, Some IoEOF, [])
      else (rd @ replicate (n - length rd) 0, Some IoErrUnexpectedEOF, []))"

subsection \<open>Records\<close>

text \<open>
  \<open>perfEventHeader\<close>: \<open>binary.Read\<close> reads the \<open>binary.Size\<close> of the structure, 8
  bytes, with one \<open>io.ReadFull\<close> and decodes the fields in their order. On an error
  it returns it and leaves the structure as it was.
\<close>

record perfEventHeader =
  Type :: "32 word"
  Misc :: "16 word"
  Size :: "16 word"

definition binary_Read_header :: "ByteOrder \<Rightarrow> reader \<Rightarrow> error option \<times> perfEventHeader \<times> reader" where
  "binary_Read_header order rd =
     (case ReadFull rd 8 of
        (bs, Some err, rd') \<Rightarrow> (Some err, \<lparr>Type = 0, Misc = 0, Size = 0\<rparr>, rd')
      | (bs, None, rd') \<Rightarrow>
          (None, \<lparr>Type = Uint32 order (take 4 bs),
                   Misc = Uint16 order (take 2 (drop 4 bs)),
                   Size = Uint16 order (take 2 (drop 6 bs))\<rparr>, rd'))"

text \<open>
  \<open>Record\<close>. A slice that is \<open>nil\<close> is \<open>None\<close>; \<open>make([]byte, 0)\<close> is \<open>Some []\<close>.
  \<open>Record{}\<close> is the zero value.
\<close>

record Record =
  CPU :: int
  RawSample :: "byte list option"
  LostSamples :: "64 word"

definition Record_zero :: Record where
  "Record_zero = \<lparr>CPU = 0, RawSample = None, LostSamples = 0\<rparr>"

text \<open>\<open>readLostRecords\<close>: the structure \<open>{ID, Lost uint64}\<close> is 16 bytes.\<close>

definition readLostRecords :: "ByteOrder \<Rightarrow> reader \<Rightarrow> (64 word \<times> error option) \<times> reader" where
  "readLostRecords order rd =
     (case ReadFull rd 16 of
        (bs, Some err, rd') \<Rightarrow> ((0, Wrap (Some err) ''can't read lost records header''), rd')
      | (bs, None, rd') \<Rightarrow> ((Uint64 order (take 8 (drop 8 bs)), None), rd'))"

text \<open>
  \<open>readRawSample\<close>: \<open>int(size)\<close> of a \<open>uint32\<close> is its value, so \<open>data\<close> has
  \<open>unat sz\<close> bytes. The slice is returned also when \<open>io.ReadFull\<close> fails.
\<close>

definition readRawSample :: "ByteOrder \<Rightarrow> reader \<Rightarrow> (byte list option \<times> error option) \<times> reader" where
  "readRawSample order rd =
     (case ReadFull rd 4 of
        (bs, Some err, rd') \<Rightarrow> ((None, Wrap (Some err) ''can't read sample size''), rd')
      | (bs, None, rd') \<Rightarrow>
          (let sz = Uint32 order bs in
           case ReadFull rd' (unat sz) of
             (data, err, rd'') \<Rightarrow> ((Some data, Wrap err ''can't read sample''), rd'')))"

definition perfRecordLost :: "32 word" where
  "perfRecordLost = 2"

definition perfRecordSample :: "32 word" where
  "perfRecordSample = 9"

definition readRecord :: "ByteOrder \<Rightarrow> reader \<Rightarrow> int \<Rightarrow> (Record \<times> error option) \<times> reader" where
  "readRecord order rd cpu =
     (case binary_Read_header order rd of (err, header, rd') \<Rightarrow>
        if err = Some IoEOF then ((Record_zero, Some errEOR), rd')
        else if err \<noteq> None then ((Record_zero, Wrap err ''can't read event header''), rd')
        else if Type header = perfRecordLost then
          (case readLostRecords order rd' of ((lost, err), rd'') \<Rightarrow>
             ((\<lparr>CPU = cpu, RawSample = None, LostSamples = lost\<rparr>, err), rd''))
        else if Type header = perfRecordSample then
          (case readRawSample order rd' of ((sample, err), rd'') \<Rightarrow>
             ((\<lparr>CPU = cpu, RawSample = sample, LostSamples = 0\<rparr>, err), rd''))
        else ((Record_zero, Some (unknownEventError (Type header))), rd'))"

text \<open>The layout of a header on the wire, in the order of the fields.\<close>

definition encodeHeader :: "ByteOrder \<Rightarrow> perfEventHeader \<Rightarrow> byte list" where
  "encodeHeader order h =
     PutUint32 order (Type h) @ PutUint16 order (Misc h) @ PutUint16 order (Size h)"

subsection \<open>The kernel side\<close>

text \<open>
  What the reader does to the world outside is kept in a record: the routing table (the
  perf event array, from index to descriptor) and the calls the reader makes on its
  descriptors, its rings and its map handle, in the order they are made.
\<close>

datatype effect =
    UnixClose int
  | UnixWrite int "byte list"
  | EpollCtlAdd int int "32 word" "32 word"
  | RingClose int
  | MapClose int

record kernel =
  table :: "32 word \<rightharpoonup> 32 word"
  trace :: "effect list"

definition emit :: "effect \<Rightarrow> kernel \<Rightarrow> kernel" where
  "emit e kern = kern\<lparr>trace := trace kern @ [e]\<rparr>"

text \<open>
  The calls that can fail are answered by the environment: for each of them it holds the
  descriptor it returns or the error it fails with.
\<close>

record env =
  env_EpollCreate1 :: "error + int"
  env_EpollCtl :: "int \<Rightarrow> int \<Rightarrow> error option"
  env_Eventfd :: "error + int"
  env_Write :: "int \<Rightarrow> error option"
  env_ring :: "int \<Rightarrow> error + int"
  env_Clone :: "error + int"
  env_Put :: "32 word \<Rightarrow> 32 word \<Rightarrow> error option"
  env_Delete :: "32 word \<Rightarrow> error option"

text \<open>
  Modelled from the spec: \<open>ebpf.Map\<close>, the handle on the routing table (package
  \<open>github.com/cilium/ebpf\<close> is not among the sources). The table has a fixed
  \<open>max_entries\<close>; \<open>insert(index, fd)\<close> stores the descriptor at the index, replacing
  what was there; \<open>delete(index)\<close> of an absent entry reports \<open>ENOENT\<close> (2), which
  \<open>ebpf.IsNotExist\<close> recognises; \<open>duplicate\<close> returns a second handle on the same
  table; \<open>close\<close> releases a handle. A call that fails leaves the table as it was.
\<close>

record ebpfMap =
  mapFd :: int
  MaxEntries :: "32 word"

definition MapPut :: "env \<Rightarrow> 32 word \<Rightarrow> 32 word \<Rightarrow> kernel \<Rightarrow> error option \<times> kernel" where
  "MapPut en key val kern =
     (case env_Put en key val of
        Some e \<Rightarrow> (Some e, kern)
      | None \<Rightarrow> (None, kern\<lparr>table := (table kern)(key \<mapsto> val)\<rparr>))"

definition MapDelete :: "env \<Rightarrow> 32 word \<Rightarrow> kernel \<Rightarrow> error option \<times> kernel" where
  "MapDelete en key kern =
     (case env_Delete en key of
        Some e \<Rightarrow> (Some e, kern)
      | None \<Rightarrow>
          (if table kern key = None then (Some (Wrapped (Errno 2) ''can't delete key'' []), kern)
           else (None, kern\<lparr>table := (table kern)(key := None)\<rparr>)))"

definition IsNotExist :: "error \<Rightarrow> bool" where
  "IsNotExist err = (Cause err = Errno 2)"

definition MapClone :: "env \<Rightarrow> ebpfMap \<Rightarrow> error + ebpfMap" where
  "MapClone en m = (case env_Clone en of Inl e \<Rightarrow> Inl e | Inr fd' \<Rightarrow> Inr (m\<lparr>mapFd := fd'\<rparr>))"

text \<open>
  Modelled from the spec: \<open>perfEventRing\<close> (\<open>ring.go\<close> is not among the sources).
  A ring is the \<open>io.Reader\<close> over the bytes between its tail and the head it
  snapshotted last: \<open>unread\<close>. \<open>produced\<close> are the bytes the kernel has written
  beyond that head. \<open>loadHead\<close> snapshots the producer's cursor, \<open>writeTail\<close>
  publishes the tail, \<open>tail\<close> counts the bytes consumed and \<open>dataTail\<close> is the tail
  the kernel sees. \<open>newPerfEventRing\<close> fails if the size is \<open>< 1\<close> or the watermark
  is not below the size, and when the descriptor or the mapping cannot be set up.
\<close>

record perfEventRing =
  cpu :: int
  fd :: int
  unread :: "byte list"
  produced :: "byte list"
  tail :: nat
  dataTail :: nat

definition loadHead :: "perfEventRing \<Rightarrow> perfEventRing" where
  "loadHead ring = ring\<lparr>unread := unread ring @ produced ring, produced := []\<rparr>"

definition writeTail :: "perfEventRing \<Rightarrow> perfEventRing" where
  "writeTail ring = ring\<lparr>dataTail := tail ring\<rparr>"

definition newPerfEventRing :: "env \<Rightarrow> int \<Rightarrow> int \<Rightarrow> int \<Rightarrow> error + perfEventRing" where
  "newPerfEventRing en c perCPUBuffer watermark =
     (if perCPUBuffer < 1 \<or> watermark \<ge> perCPUBuffer
      then Inl (ErrorsNew ''ConfigError'' [])
      else case env_ring en c of
             Inl e \<Rightarrow> Inl e
           | Inr f \<Rightarrow> Inr \<lparr>cpu = c, fd = f, unread = [], produced = [], tail = 0, dataTail = 0\<rparr>)"

text \<open>
  \<open>readRecordFromRing\<close>: \<open>readRecord\<close> on the ring, which moves the tail over the
  bytes it consumed; the deferred \<open>writeTail\<close> runs on every return.
\<close>

definition readRecordFromRing :: "ByteOrder \<Rightarrow> perfEventRing \<Rightarrow> (Record \<times> error option) \<times> perfEventRing" where
  "readRecordFromRing order ring =
     (case readRecord order (unread ring) (cpu ring) of (res, rd') \<Rightarrow>
        (res, writeTail (ring\<lparr>unread := rd', tail := tail ring + (length (unread ring) - length rd')\<rparr>)))"

subsection \<open>The Reader\<close>

text \<open>
  \<open>unix.EpollEvent\<close>: \<open>Fd\<close> and \<open>Pad\<close> are \<open>int32\<close>, read with \<open>sint\<close>.
\<close>

record EpollEvent =
  Events :: "32 word"
  Fd :: "32 word"
  Pad :: "32 word"

definition EPOLLIN :: "32 word" where
  "EPOLLIN = 1"

definition addToEpoll :: "env \<Rightarrow> int \<Rightarrow> int \<Rightarrow> int \<Rightarrow> kernel \<Rightarrow> error option \<times> kernel" where
  "addToEpoll en epollfd f c kern =
     (if c > 2147483647 then (Some (ErrorsNew ''unsupported CPU number: %d'' [c]), kern)
      else (Wrap (env_EpollCtl en epollfd f) ''can't add fd to epoll'',
            emit (EpollCtlAdd epollfd f (word_of_int f) (word_of_int c)) kern))"

definition cpuForEvent :: "EpollEvent \<Rightarrow> int" where
  "cpuForEvent event = sint (Pad event)"

text \<open>
  The \<open>Reader\<close>. The mutexes serialise the calls and have no field here: each
  function below is one call running alone. \<open>closeOnce\<close> is whether the
  \<open>sync.Once\<close> has fired. The rings are the objects themselves; \<open>epollRings\<close>, a
  slice of pointers to rings of \<open>rings\<close>, holds for each pointer the index of its ring
  in \<open>rings\<close>. \<open>pauseFds\<close> is compared with \<open>nil\<close>, so it is an option.
\<close>

record Reader =
  array :: ebpfMap
  rings :: "perfEventRing list"
  epollFd :: int
  epollEvents :: "EpollEvent list"
  epollRings :: "nat list"
  closeFd :: int
  closeOnce :: bool
  pauseFds :: "int list option"

record ReaderOptions =
  Watermark :: int

subsection \<open>\<open>Resume\<close> and \<open>Pause\<close>\<close>

text \<open>
  The loop \<open>for i := 0; i < len(pr.pauseFds); i++\<close> of \<open>Resume\<close>, from index
  \<open>i\<close> on. \<open>uint32(i)\<close> and \<open>uint32(pr.pauseFds[i])\<close> are conversions to words; the
  message of the error is formatted from the descriptor as a \<open>uint32\<close> and from \<open>i\<close>.
\<close>

function Resume_loop :: "env \<Rightarrow> int list \<Rightarrow> nat \<Rightarrow> kernel \<Rightarrow> error option \<times> kernel" where
  "Resume_loop en fds i kern =
     (if i < length fds then
        (let f = (word_of_int (fds ! i) :: 32 word) in
         case MapPut en (of_nat i) f kern of
           (Some err, kern') \<Rightarrow>
             (Wrapf (Some err) ''could't put event fd %d for CPU %d'' [uint f, int i], kern')
         | (None, kern') \<Rightarrow> Resume_loop en fds (Suc i) kern')
      else (None, kern))"
  by pat_completeness auto
termination
  by (relation "measure (\<lambda>(en, fds, i, kern). length fds - i)") auto

declare Resume_loop.simps [simp del]

definition Resume :: "env \<Rightarrow> Reader \<Rightarrow> kernel \<Rightarrow> error option \<times> kernel" where
  "Resume en pr kern =
     (case pauseFds pr of
        None \<Rightarrow> (Some errClosed, kern)
      | Some fds \<Rightarrow> Resume_loop en fds 0 kern)"

function Pause_loop :: "env \<Rightarrow> int list \<Rightarrow> nat \<Rightarrow> kernel \<Rightarrow> error option \<times> kernel" where
  "Pause_loop en fds i kern =
     (if i < length fds then
        (case MapDelete en (of_nat i) kern of
           (Some err, kern') \<Rightarrow>
             (if \<not> IsNotExist err
              then (Wrapf (Some err) ''could't delete event fd for CPU %d'' [int i], kern')
              else Pause_loop en fds (Suc i) kern')
         | (None, kern') \<Rightarrow> Pause_loop en fds (Suc i) kern')
      else (None, kern))"
  by pat_completeness auto
termination
  by (relation "measure (\<lambda>(en, fds, i, kern). length fds - i)") auto

declare Pause_loop.simps [simp del]

definition Pause :: "env \<Rightarrow> Reader \<Rightarrow> kernel \<Rightarrow> error option \<times> kernel" where
  "Pause en pr kern =
     (case pauseFds pr of
        None \<Rightarrow> (Some errClosed, kern)
      | Some fds \<Rightarrow> Pause_loop en fds 0 kern)"

subsection \<open>\<open>Close\<close>\<close>

text \<open>
  \<open>closeOnce.Do\<close> runs its function on the first call only, and has fired also when
  the function returns early. The function writes the value 1 to the event descriptor;
  if that fails it returns, and nothing is torn down. Otherwise it closes the two
  descriptors and every ring, clears \<open>rings\<close> and \<open>pauseFds\<close> and closes the map.
\<close>

definition Close :: "ByteOrder \<Rightarrow> env \<Rightarrow> Reader \<Rightarrow> kernel \<Rightarrow> error option \<times> Reader \<times> kernel" where
  "Close order en pr kern =
     (if closeOnce pr then (Wrap None ''close PerfReader'', pr, kern)
      else
        let pr1 = pr\<lparr>closeOnce := True\<rparr>;
            kern1 = emit (UnixWrite (closeFd pr1) (PutUint64 order 1)) kern
        in case env_Write en (closeFd pr1) of
             Some e \<Rightarrow>
               (Wrap (Wrap (Some e) ''can't write event fd'') ''close PerfReader'', pr1, kern1)
           | None \<Rightarrow>
               let kern2 = emit (UnixClose (closeFd pr1)) (emit (UnixClose (epollFd pr1)) kern1);
                   kern3 = fold (\<lambda>ring. emit (RingClose (cpu ring))) (rings pr1) kern2;
                   kern4 = emit (MapClose (mapFd (array pr1))) kern3
               in (Wrap None ''close PerfReader'',
                   pr1\<lparr>epollFd := -1, closeFd := -1, rings := [], pauseFds := None\<rparr>, kern4))"

subsection \<open>\<open>Read\<close>\<close>

text \<open>
  One answer of \<open>unix.EpollWait\<close>: the bytes the kernel has written to each ring while
  the call waited, and either the error number the call fails with (\<open>unix.EpollWait\<close>
  returns a \<open>syscall.Errno\<close>) or the events that are ready. \<open>Read\<close> is given the
  answers of the calls it will make, in order; when they are used up the next
  \<open>EpollWait\<close> never returns. A call of \<open>Read\<close> that returns has made finitely many
  calls of \<open>EpollWait\<close>, so the finite lists cover every execution that returns.
\<close>

record epollWait =
  wrote :: "nat \<Rightarrow> byte list"
  waitErr :: "nat option"
  ready :: "EpollEvent list"

definition kernelWrites :: "(nat \<Rightarrow> byte list) \<Rightarrow> perfEventRing list \<Rightarrow> perfEventRing list" where
  "kernelWrites w rs = map (\<lambda>i. (rs ! i)\<lparr>produced := produced (rs ! i) @ w i\<rparr>) [0..<length rs]"

text \<open>
  \<open>EpollWait(epfd, events, -1)\<close> returns \<open>-1\<close> and the error, or the number of events
  it has stored at the front of \<open>events\<close>, at most \<open>len(events)\<close>.
\<close>

definition EpollWait :: "epollWait \<Rightarrow> EpollEvent list \<Rightarrow> (int \<times> error option) \<times> EpollEvent list" where
  "EpollWait w events =
     (case waitErr w of
        Some e \<Rightarrow> ((-1, Some (Errno e)), events)
      | None \<Rightarrow>
          (let n = min (length (ready w)) (length events)
           in ((int n, None), take n (ready w) @ drop n events)))"

text \<open>
  What a call of \<open>Read\<close> ends with: it returns a record and an error, it panics (an
  index out of range), or it stays in \<open>EpollWait\<close> for ever.
\<close>

datatype result = Returns Record "error option" | Panics | Blocks

text \<open>
  The loop over the ready events. The event of the close descriptor ends \<open>Read\<close>;
  the rings pushed before it stay pushed. \<open>pr.rings[cpuForEvent(&event)]\<close> panics when
  the index is out of range.
\<close>

fun pushEvents :: "EpollEvent list \<Rightarrow> Reader \<Rightarrow> result option \<times> Reader" where
  "pushEvents [] pr = (None, pr)"
| "pushEvents (event # events) pr =
     (if sint (Fd event) = closeFd pr then (Some (Returns Record_zero (Some errClosed)), pr)
      else
        let c = cpuForEvent event in
        if c < 0 \<or> int (length (rings pr)) \<le> c then (Some Panics, pr)
        else pushEvents events
               (pr\<lparr>epollRings := epollRings pr @ [nat c],
                   rings := (rings pr)[nat c := loadHead (rings pr ! nat c)]\<rparr>))"

text \<open>
  The first half of an iteration of the loop of \<open>Read\<close>, \<open>if len(pr.epollRings) == 0\<close>:
  it ends in \<open>continue\<close> (\<open>Retry\<close>), in a \<open>return\<close> (\<open>Stop\<close>), or goes on to read
  from the ring on top (\<open>Go\<close>).
\<close>

datatype phase =
    Retry "epollWait list" Reader
  | Stop result Reader "epollWait list"
  | Go Reader "epollWait list"

definition waitPhase :: "epollWait list \<Rightarrow> Reader \<Rightarrow> phase" where
  "waitPhase ws pr =
     (if epollRings pr \<noteq> [] then Go pr ws
      else case ws of
        [] \<Rightarrow> Stop Blocks pr []
      | w # ws' \<Rightarrow>
          (let pr1 = pr\<lparr>rings := kernelWrites (wrote w) (rings pr)\<rparr> in
           case EpollWait w (epollEvents pr1) of ((nEvents, err), events') \<Rightarrow>
             let pr2 = pr1\<lparr>epollEvents := events'\<rparr> in
             if (case err of Some e \<Rightarrow> Temporary e | None \<Rightarrow> False) then Retry ws' pr2
             else if err \<noteq> None then Stop (Returns Record_zero err) pr2 ws'
             else (case pushEvents (take (nat nEvents) events') pr2 of
                     (Some r, pr3) \<Rightarrow> Stop r pr3 ws'
                   | (None, pr3) \<Rightarrow> Go pr3 ws')))"

text \<open>
  \<open>readRecordFromRing(pr.epollRings[len(pr.epollRings)-1])\<close>. On an empty
  \<open>epollRings\<close> the index is \<open>-1\<close> and the call panics. The pointer on top is the
  index of its ring; an index outside \<open>rings\<close> stands for no ring of the reader, which
  \<open>pushEvents\<close> never pushes, and is a panic as well.
\<close>

definition readTop :: "ByteOrder \<Rightarrow> Reader \<Rightarrow> ((Record \<times> error option) \<times> Reader) option" where
  "readTop order pr =
     (if epollRings pr = [] then None
      else
        let i = last (epollRings pr) in
        if length (rings pr) \<le> i then None
        else case readRecordFromRing order (rings pr ! i) of (res, ring') \<Rightarrow>
               Some (res, pr\<lparr>rings := (rings pr)[i := ring']\<rparr>))"

function Read_loop :: "ByteOrder \<Rightarrow> epollWait list \<Rightarrow> Reader \<Rightarrow> result \<times> Reader \<times> epollWait list" where
  "Read_loop order ws pr =
     (case waitPhase ws pr of
        Retry ws' pr' \<Rightarrow> Read_loop order ws' pr'
      | Stop r pr' ws' \<Rightarrow> (r, pr', ws')
      | Go pr' ws' \<Rightarrow>
          (case readTop order pr' of
             None \<Rightarrow> (Panics, pr', ws')
           | Some ((rcd, err), pr'') \<Rightarrow>
               if err = Some errEOR
               then Read_loop order ws' (pr''\<lparr>epollRings := butlast (epollRings pr'')\<rparr>)
               else (Returns rcd err, pr'', ws')))"
  by pat_completeness auto
termination
proof (relation "measures [\<lambda>(order, ws, pr). length ws, \<lambda>(order, ws, pr). length (epollRings pr)]",
       goal_cases)
  case 1
  show ?case by simp
next
  case (2 order ws pr ws' pr')
  then have "length ws' < length ws"
    by (auto simp add: waitPhase_def Let_def split: if_splits list.splits prod.splits option.splits)
  then show ?case by simp
next
  case (3 order ws pr pr' ws' x res pr'' rcd err)
  from 3(1) have "(epollRings pr \<noteq> [] \<and> pr' = pr \<and> ws' = ws) \<or> length ws' < length ws"
    by (auto simp add: waitPhase_def Let_def split: if_splits list.splits prod.splits option.splits)
  moreover from 3(2,3) have "epollRings pr'' = epollRings pr' \<and> epollRings pr' \<noteq> []"
    by (auto simp add: readTop_def Let_def split: if_splits prod.splits)
  ultimately show ?case by auto
qed

declare Read_loop.simps [simp del]

definition Read :: "ByteOrder \<Rightarrow> epollWait list \<Rightarrow> Reader \<Rightarrow> result \<times> Reader \<times> epollWait list" where
  "Read order ws pr =
     (if epollFd pr = -1 then (Returns Record_zero (Some errClosed), pr, ws)
      else Read_loop order ws pr)"

subsection \<open>\<open>NewReaderWithOptions\<close>\<close>

text \<open>
  The loop \<open>for i := 0; i < nCPU; i++\<close> that creates the rings, from \<open>i\<close> on, with
  the rings and descriptors collected so far. On an error it returns them as they are,
  for the deferred function to release.
\<close>

function newRings ::
  "env \<Rightarrow> int \<Rightarrow> int \<Rightarrow> int \<Rightarrow> nat \<Rightarrow> nat \<Rightarrow> perfEventRing list \<Rightarrow> int list \<Rightarrow> kernel
     \<Rightarrow> error option \<times> perfEventRing list \<times> int list \<times> kernel" where
  "newRings en perCPUBuffer watermark epfd nCPU i rs pfds kern =
     (if i < nCPU then
        (case newPerfEventRing en (int i) perCPUBuffer watermark of
           Inl err \<Rightarrow>
             (Wrapf (Some err) ''failed to create perf ring for CPU %d'' [int i], rs, pfds, kern)
         | Inr ring \<Rightarrow>
             (let rs' = rs @ [ring]; pfds' = pfds @ [fd ring] in
              case addToEpoll en epfd (fd ring) (int (length rs') - 1) kern of
                (Some err, kern') \<Rightarrow> (Some err, rs', pfds', kern')
              | (None, kern') \<Rightarrow>
                  newRings en perCPUBuffer watermark epfd nCPU (Suc i) rs' pfds' kern'))
      else (None, rs, pfds, kern))"
  by pat_completeness auto
termination
  by (relation "measure (\<lambda>(en, perCPUBuffer, watermark, epfd, nCPU, i, rs, pfds, kern). nCPU - i)")
     auto

declare newRings.simps [simp del]

text \<open>The deferred function of the constructor, run when it returns an error.\<close>

definition cleanup :: "int list \<Rightarrow> perfEventRing list \<Rightarrow> kernel \<Rightarrow> kernel" where
  "cleanup fds rs kern =
     fold (\<lambda>ring. emit (RingClose (cpu ring))) rs (fold (\<lambda>f. emit (UnixClose f)) fds kern)"

definition zeroEvent :: EpollEvent where
  "zeroEvent = \<lparr>Events = 0, Fd = 0, Pad = 0\<rparr>"

text \<open>
  The constructor returns \<open>(nil, err)\<close> or \<open>(pr, nil)\<close>. The two early returns
  before the \<open>defer\<close> statement release nothing. \<open>int(array.ABI().MaxEntries)\<close> is
  the value of the \<open>uint32\<close>. \<open>Resume\<close> is called twice.
\<close>

definition NewReaderWithOptions ::
  "env \<Rightarrow> ebpfMap \<Rightarrow> int \<Rightarrow> ReaderOptions \<Rightarrow> kernel \<Rightarrow> (error + Reader) \<times> kernel" where
  "NewReaderWithOptions en arr perCPUBuffer opts kern =
     (if perCPUBuffer < 1 then (Inl (ErrorsNew ''perCPUBuffer must be larger than 0'' []), kern)
      else case env_EpollCreate1 en of
        Inl err \<Rightarrow> (Inl (Wrapped err ''can't create epoll fd'' []), kern)
      | Inr epfd \<Rightarrow>
         (let nCPU = unat (MaxEntries arr) in
          case newRings en perCPUBuffer (Watermark opts) epfd nCPU 0 [] [] kern of
            (Some err, rs, pfds, kern1) \<Rightarrow> (Inl err, cleanup [epfd] rs kern1)
          | (None, rs, pfds, kern1) \<Rightarrow>
             (case env_Eventfd en of
                Inl err \<Rightarrow> (Inl err, cleanup [epfd] rs kern1)
              | Inr cfd \<Rightarrow>
                 (case addToEpoll en epfd cfd (-1) kern1 of
                    (Some err, kern2) \<Rightarrow> (Inl err, cleanup [epfd, cfd] rs kern2)
                  | (None, kern2) \<Rightarrow>
                     (case MapClone en arr of
                        Inl err \<Rightarrow> (Inl err, cleanup [epfd, cfd] rs kern2)
                      | Inr arr' \<Rightarrow>
                         (let pr = \<lparr>array = arr', rings = rs, epollFd = epfd,
                                    epollEvents = replicate (length rs + 1) zeroEvent,
                                    epollRings = [], closeFd = cfd, closeOnce = False,
                                    pauseFds = Some pfds\<rparr> in
                          case Resume en pr kern2 of
                            (Some err, kern3) \<Rightarrow> (Inl err, cleanup [epfd, cfd] rs kern3)
                          | (None, kern3) \<Rightarrow>
                             (case Resume en pr kern3 of
                                (Some err, kern4) \<Rightarrow> (Inl err, cleanup [epfd, cfd] rs kern4)
                              | (None, kern4) \<Rightarrow> (Inr pr, kern4))))))))"

definition NewReader :: "env \<Rightarrow> ebpfMap \<Rightarrow> int \<Rightarrow> kernel \<Rightarrow> (error + Reader) \<times> kernel" where
  "NewReader en arr perCPUBuffer kern =
     NewReaderWithOptions en arr perCPUBuffer \<lparr>Watermark = 0\<rparr> kern"

subsection \<open>The iterations of the loop of \<open>Read\<close>\<close>

text \<open>
  The answer of an \<open>EpollWait\<close> is an interruption when its error has the method
  \<open>Temporary\<close> and the method returns true: the condition
  \<open>temp, ok := err.(temporaryError); ok && temp.Temporary()\<close> of \<open>Read\<close>.
\<close>

definition interrupted :: "epollWait \<Rightarrow> bool" where
  "interrupted w = (case waitErr w of Some e \<Rightarrow> Temporary (Errno e) | None \<Rightarrow> False)"

text \<open>
  An iteration of the loop of \<open>Read\<close> ends in a \<open>return\<close> (or a panic), or in one of
  the two \<open>continue\<close> statements: after an interrupted \<open>EpollWait\<close>, and after the ring
  on top has answered \<open>errEOR\<close> and has been popped. \<open>nextHead\<close> is the answers left
  and the reader with which the next iteration starts, in the second case.
  \<open>loopHead order n ws pr\<close> is where the loop stands after \<open>n\<close> iterations that all
  ended in \<open>continue\<close>.
\<close>

definition nextHead :: "ByteOrder \<Rightarrow> epollWait list \<Rightarrow> Reader \<Rightarrow> (epollWait list \<times> Reader) option" where
  "nextHead order ws pr =
     (case waitPhase ws pr of
        Retry ws' pr' \<Rightarrow> Some (ws', pr')
      | Stop r pr' ws' \<Rightarrow> None
      | Go pr' ws' \<Rightarrow>
          (case readTop order pr' of
             None \<Rightarrow> None
           | Some ((rcd, err), pr'') \<Rightarrow>
               if err = Some errEOR
               then Some (ws', pr''\<lparr>epollRings := butlast (epollRings pr'')\<rparr>)
               else None))"

fun loopHead :: "ByteOrder \<Rightarrow> nat \<Rightarrow> epollWait list \<Rightarrow> Reader \<Rightarrow> (epollWait list \<times> Reader) option" where
  "loopHead order 0 ws pr = Some (ws, pr)"
| "loopHead order (Suc n) ws pr =
     (case nextHead order ws pr of
        None \<Rightarrow> None
      | Some (ws', pr') \<Rightarrow> loopHead order n ws' pr')"

subsection \<open>\<open>Close\<close> from two execution contexts\<close>

text \<open>
  The function that \<open>Close\<close> passes to \<open>closeOnce.Do\<close>: it returns the value it leaves
  in the variable \<open>err\<close> of the call, the reader and the kernel. It does not touch
  \<open>closeOnce\<close>.
\<close>

definition closeFunc :: "ByteOrder \<Rightarrow> env \<Rightarrow> Reader \<Rightarrow> kernel \<Rightarrow> error option \<times> Reader \<times> kernel" where
  "closeFunc order en pr kern =
     (let kern1 = emit (UnixWrite (closeFd pr) (PutUint64 order 1)) kern
      in case env_Write en (closeFd pr) of
           Some e \<Rightarrow> (Wrap (Some e) ''can't write event fd'', pr, kern1)
         | None \<Rightarrow>
             let kern2 = emit (UnixClose (closeFd pr)) (emit (UnixClose (epollFd pr)) kern1);
                 kern3 = fold (\<lambda>ring. emit (RingClose (cpu ring))) (rings pr) kern2;
                 kern4 = emit (MapClose (mapFd (array pr))) kern3
             in (None, pr\<lparr>epollFd := -1, closeFd := -1, rings := [], pauseFds := None\<rparr>, kern4))"

text \<open>
  Two calls of \<open>Close\<close> on one reader, each in its own execution context, interleaved
  by a scheduler. \<open>sync.Once.Do(f)\<close> of the Go library is
  \<^verbatim>\<open>if atomic.LoadUint32(&o.done) == 0 { o.doSlow(f) }\<close>, and \<open>doSlow\<close> is
  \<^verbatim>\<open>o.m.Lock(); defer o.m.Unlock(); if o.done == 0 { defer atomic.StoreUint32(&o.done, 1); f() }\<close>.
  A context is at one of these points of its call:
  \<^item> \<open>Start\<close>: before the load of \<open>done\<close>;
  \<^item> \<open>WantLock\<close>: it has read \<open>done = 0\<close> and waits for the mutex of the \<open>Once\<close>;
  \<^item> \<open>Locked\<close>: it holds the mutex;
  \<^item> \<open>Ran err\<close>: it has run the function, which left \<open>err\<close>;
  \<^item> \<open>Stored err\<close>: it has stored \<open>done = 1\<close>;
  \<^item> \<open>Returned r\<close>: it has released the mutex, if it held it, and \<open>Close\<close> has
    returned \<open>r\<close>.
  \<open>done\<close> is the field \<open>closeOnce\<close> of the reader. The function runs as one step: while
  it runs the other context can only load \<open>done\<close>, which the function does not write,
  or wait for the mutex. A context that the scheduler picks while it waits for a held
  mutex, or after it has returned, does nothing.
\<close>

datatype ctx = Start | WantLock | Locked | Ran "error option" | Stored "error option"
  | Returned "error option"

datatype who = CtxA | CtxB

record config =
  ctxA :: ctx
  ctxB :: ctx
  cReader :: Reader
  cKernel :: kernel
  cMutex :: bool

definition getCtx :: "who \<Rightarrow> config \<Rightarrow> ctx" where
  "getCtx t cfg = (case t of CtxA \<Rightarrow> ctxA cfg | CtxB \<Rightarrow> ctxB cfg)"

definition setCtx :: "who \<Rightarrow> ctx \<Rightarrow> config \<Rightarrow> config" where
  "setCtx t c cfg = (case t of CtxA \<Rightarrow> cfg\<lparr>ctxA := c\<rparr> | CtxB \<Rightarrow> cfg\<lparr>ctxB := c\<rparr>)"

definition closeStep :: "ByteOrder \<Rightarrow> env \<Rightarrow> who \<Rightarrow> config \<Rightarrow> config" where
  "closeStep order en t cfg =
     (case getCtx t cfg of
        Start \<Rightarrow>
          if closeOnce (cReader cfg)
          then setCtx t (Returned (Wrap None ''close PerfReader'')) cfg
          else setCtx t WantLock cfg
      | WantLock \<Rightarrow>
          if cMutex cfg then cfg else setCtx t Locked (cfg\<lparr>cMutex := True\<rparr>)
      | Locked \<Rightarrow>
          if closeOnce (cReader cfg)
          then setCtx t (Returned (Wrap None ''close PerfReader'')) (cfg\<lparr>cMutex := False\<rparr>)
          else (case closeFunc order en (cReader cfg) (cKernel cfg) of (err, pr', kern') \<Rightarrow>
                  setCtx t (Ran err) (cfg\<lparr>cReader := pr', cKernel := kern'\<rparr>))
      | Ran err \<Rightarrow>
          setCtx t (Stored err) (cfg\<lparr>cReader := (cReader cfg)\<lparr>closeOnce := True\<rparr>\<rparr>)
      | Stored err \<Rightarrow>
          setCtx t (Returned (Wrap err ''close PerfReader'')) (cfg\<lparr>cMutex := False\<rparr>)
      | Returned r \<Rightarrow> cfg)"

definition closeStart :: "Reader \<Rightarrow> kernel \<Rightarrow> config" where
  "closeStart pr kern =
     \<lparr>ctxA = Start, ctxB = Start, cReader = pr, cKernel = kern, cMutex = False\<rparr>"

definition closeRun :: "ByteOrder \<Rightarrow> env \<Rightarrow> who list \<Rightarrow> Reader \<Rightarrow> kernel \<Rightarrow> config" where
  "closeRun order en sched pr kern = fold (closeStep order en) sched (closeStart pr kern)"

text \<open>
  The invariant of the interleavings, used in the proofs. Either no context has run
  the function yet, the reader and the kernel are as at the start and at most one
  context holds the mutex; or one context has run it, and the other has not got past
  waiting for the mutex or has found \<open>done\<close> set and returned \<open>nil\<close>.
  \<open>winner e prb kb x y cfg\<close>: the context at \<open>x\<close> has run the function, which left the
  error \<open>e\<close>, the reader \<open>prb\<close> and the kernel \<open>kb\<close>, and the other context is at \<open>y\<close>.
  On a reader whose \<open>done\<close> is set at the start both contexts return \<open>nil\<close> at once.
\<close>

definition winner :: "error option \<Rightarrow> Reader \<Rightarrow> kernel \<Rightarrow> ctx \<Rightarrow> ctx \<Rightarrow> config \<Rightarrow> bool" where
  "winner e prb kb x y cfg =
     ((x = Ran e \<and> (y = Start \<or> y = WantLock) \<and> cMutex cfg
         \<and> cReader cfg = prb \<and> cKernel cfg = kb)
      \<or> (x = Stored e \<and> (y = Start \<or> y = WantLock \<or> y = Returned None) \<and> cMutex cfg
         \<and> cReader cfg = prb\<lparr>closeOnce := True\<rparr> \<and> cKernel cfg = kb)
      \<or> (x = Returned (Wrap e ''close PerfReader'')
         \<and> (y = Start \<or> y = WantLock \<or> y = Locked \<or> y = Returned None)
         \<and> cMutex cfg = (y = Locked)
         \<and> cReader cfg = prb\<lparr>closeOnce := True\<rparr> \<and> cKernel cfg = kb))"

definition closeInv :: "ByteOrder \<Rightarrow> env \<Rightarrow> Reader \<Rightarrow> kernel \<Rightarrow> config \<Rightarrow> bool" where
  "closeInv order en pr0 kern0 cfg =
     (case closeFunc order en pr0 kern0 of (e, prb, kb) \<Rightarrow>
        if closeOnce pr0
        then cReader cfg = pr0 \<and> cKernel cfg = kern0 \<and> \<not> cMutex cfg
             \<and> (ctxA cfg = Start \<or> ctxA cfg = Returned None)
             \<and> (ctxB cfg = Start \<or> ctxB cfg = Returned None)
        else (cReader cfg = pr0 \<and> cKernel cfg = kern0
              \<and> (ctxA cfg = Start \<or> ctxA cfg = WantLock \<or> ctxA cfg = Locked)
              \<and> (ctxB cfg = Start \<or> ctxB cfg = WantLock \<or> ctxB cfg = Locked)
              \<and> cMutex cfg = (ctxA cfg = Locked \<or> ctxB cfg = Locked)
              \<and> \<not> (ctxA cfg = Locked \<and> ctxB cfg = Locked))
             \<or> winner e prb kb (ctxA cfg) (ctxB cfg) cfg
             \<or> winner e prb kb (ctxB cfg) (ctxA cfg) cfg)"

subsection \<open>Concrete readers and environments\<close>

text \<open>
  An environment in which every call succeeds: the epoll descriptor is 3, the ring of
  CPU \<open>c\<close> gets the descriptor \<open>10 + c\<close>, the event descriptor is 20 and the clone of
  the map has the descriptor 30. \<open>kern_empty\<close> is a kernel with an empty routing
  table and no call made yet.
\<close>

definition env_ok :: env where
  "env_ok = \<lparr>env_EpollCreate1 = Inr 3, env_EpollCtl = (\<lambda>epfd f. None), env_Eventfd = Inr 20,
     env_Write = (\<lambda>f. None), env_ring = (\<lambda>c. Inr (10 + c)), env_Clone = Inr 30,
     env_Put = (\<lambda>key val. None), env_Delete = (\<lambda>key. None)\<rparr>"

definition kern_empty :: kernel where
  "kern_empty = \<lparr>table = Map.empty, trace = []\<rparr>"

text \<open>The reader that \<open>NewReader\<close> builds in \<open>env_ok\<close> for a table of two entries.\<close>

definition reader2 :: Reader where
  "reader2 =
     \<lparr>array = \<lparr>mapFd = 30, MaxEntries = 2\<rparr>,
      rings = [\<lparr>cpu = 0, fd = 10, unread = [], produced = [], tail = 0, dataTail = 0\<rparr>,
               \<lparr>cpu = 1, fd = 11, unread = [], produced = [], tail = 0, dataTail = 0\<rparr>],
      epollFd = 3,
      epollEvents = [zeroEvent, zeroEvent, zeroEvent],
      epollRings = [],
      closeFd = 20,
      closeOnce = False,
      pauseFds = Some [10, 11]\<rparr>"

text \<open>
  Answers of \<open>EpollWait\<close>: an interruption by a signal (\<open>EINTR\<close>), a failure with
  \<open>EBADF\<close> (9), and the readiness of the close descriptor.
\<close>

definition wait_EINTR :: epollWait where
  "wait_EINTR = \<lparr>wrote = (\<lambda>i. []), waitErr = Some 4, ready = []\<rparr>"

definition wait_EBADF :: epollWait where
  "wait_EBADF = \<lparr>wrote = (\<lambda>i. []), waitErr = Some 9, ready = []\<rparr>"

definition wait_close :: epollWait where
  "wait_close = \<lparr>wrote = (\<lambda>i. []), waitErr = None,
                  ready = [\<lparr>Events = EPOLLIN, Fd = 20, Pad = -1\<rparr>]\<rparr>"

text \<open>
  An environment in which the write to the event descriptor fails with \<open>EAGAIN\<close>, and
  one in which the routing table refuses the entry of index 1 with \<open>EBADF\<close>.
\<close>

definition env_write_fails :: env where
  "env_write_fails = env_ok\<lparr>env_Write := (\<lambda>f. Some (Errno 11))\<rparr>"

definition env_put1_fails :: env where
  "env_put1_fails = env_ok\<lparr>env_Put := (\<lambda>key val. if key = 1 then Some (Errno 9) else None)\<rparr>"

text \<open>
  \<open>reader2\<close> after a \<open>Close\<close> whose write failed, and \<open>reader2\<close> with the ring of
  CPU 1 on the stack, holding a header of the unknown type 5.
\<close>

definition reader2_guarded :: Reader where
  "reader2_guarded = reader2\<lparr>closeOnce := True\<rparr>"

definition reader2_unknown :: Reader where
  "reader2_unknown =
     reader2\<lparr>rings := [\<lparr>cpu = 0, fd = 10, unread = [], produced = [], tail = 0, dataTail = 0\<rparr>,
                         \<lparr>cpu = 1, fd = 11, unread = [5, 0, 0, 0, 0, 0, 8, 0], produced = [],
                            tail = 0, dataTail = 0\<rparr>],
              epollRings := [1]\<rparr>"

text \<open>
  The kernel after the write of \<open>Close\<close> to the event descriptor 20, and an answer of
  \<open>EpollWait\<close> that reports the ring of CPU 0 ready after the kernel has written one
  sample of two bytes to it.
\<close>

definition kern_after_write :: kernel where
  "kern_after_write = \<lparr>table = Map.empty, trace = [UnixWrite 20 [1, 0, 0, 0, 0, 0, 0, 0]]\<rparr>"

definition wait_sample :: epollWait where
  "wait_sample =
     \<lparr>wrote = (\<lambda>i. if i = 0 then [9, 0, 0, 0, 0, 0, 14, 0, 2, 0, 0, 0, 7, 7] else []),
      waitErr = None,
      ready = [\<lparr>Events = EPOLLIN, Fd = 10, Pad = 0\<rparr>]\<rparr>"

text \<open>
  An environment in which the write to the event descriptor fails with \<open>EBADF\<close>.
  \<open>reader2\<close> as a \<open>Read\<close> leaves it that has returned the last record of the ring of
  CPU 0: the ring, now empty, is still on the stack. An answer of \<open>EpollWait\<close> that
  reports the ring of CPU 1 ready after the kernel has written a header of the unknown
  type 5 to it, and \<open>reader2\<close> after this answer.
\<close>

definition env_write_EBADF :: env where
  "env_write_EBADF = env_ok\<lparr>env_Write := (\<lambda>f. Some (Errno 9))\<rparr>"

definition reader2_drained :: Reader where
  "reader2_drained = reader2\<lparr>epollRings := [0]\<rparr>"

definition wait_unknown :: epollWait where
  "wait_unknown =
     \<lparr>wrote = (\<lambda>i. if i = 1 then [5, 0, 0, 0, 0, 0, 8, 0] else []),
      waitErr = None,
      ready = [\<lparr>Events = EPOLLIN, Fd = 11, Pad = 1\<rparr>]\<rparr>"

definition reader2_woken :: Reader where
  "reader2_woken =
     reader2\<lparr>rings := [\<lparr>cpu = 0, fd = 10, unread = [], produced = [], tail = 0, dataTail = 0\<rparr>,
                         \<lparr>cpu = 1, fd = 11, unread = [5, 0, 0, 0, 0, 0, 8, 0], produced = [],
                            tail = 0, dataTail = 0\<rparr>],
              epollEvents := [\<lparr>Events = EPOLLIN, Fd = 11, Pad = 1\<rparr>, zeroEvent, zeroEvent],
              epollRings := [1]\<rparr>"

subsection \<open>The state of the routing table after a run of \<open>Resume\<close>\<close>

text \<open>
  \<open>putUpTo fds i k kern kern'\<close>: \<open>kern'\<close> is \<open>kern\<close> with the descriptors of the
  indices from \<open>i\<close> up to \<open>k\<close> (excluded) inserted, and nothing else changed.
\<close>

definition putUpTo :: "int list \<Rightarrow> nat \<Rightarrow> nat \<Rightarrow> kernel \<Rightarrow> kernel \<Rightarrow> bool" where
  "putUpTo fds i k kern kern' =
     (trace kern' = trace kern
      \<and> (\<forall>j. i \<le> j \<and> j < k \<longrightarrow> table kern' (of_nat j) = Some (word_of_int (fds ! j)))
      \<and> (\<forall>x. (\<forall>j. i \<le> j \<and> j < k \<longrightarrow> x \<noteq> of_nat j) \<longrightarrow> table kern' x = table kern x))"

section \<open>Properties\<close>

subsection \<open>Byte order\<close>

lemma le_Uint16_PutUint16: "le_Uint16 (le_PutUint16 v) = v"
proof (rule bit_word_eqI)
  fix n assume n: "n < LENGTH(16)"
  have hi: "bit (push_bit 8 (ucast (ucast (drop_bit 8 v) :: byte) :: 16 word)) n
              = (8 \<le> n \<and> n < 16 \<and> bit v n)"
    by (auto simp add: bit_simps)
  have lo: "bit (ucast (ucast v :: byte) :: 16 word) n = (n < 8 \<and> bit v n)"
    by (auto simp add: bit_simps)
  show "bit (le_Uint16 (le_PutUint16 v)) n = bit v n"
    unfolding le_Uint16_def le_PutUint16_def using n
    by (simp add: bit_or_iff hi lo) arith
qed

lemma le_Uint32_PutUint32: "le_Uint32 (le_PutUint32 v) = v"
proof (rule bit_word_eqI)
  fix n assume n: "n < LENGTH(32)"
  have hi: "\<And>k. k + 8 \<le> 32 \<Longrightarrow>
      bit (push_bit k (ucast (ucast (drop_bit k v) :: byte) :: 32 word)) n
        = (k \<le> n \<and> n < k + 8 \<and> bit v n)"
    by (auto simp add: bit_simps)
  have lo: "bit (ucast (ucast v :: byte) :: 32 word) n = (n < 8 \<and> bit v n)"
    by (auto simp add: bit_simps)
  show "bit (le_Uint32 (le_PutUint32 v)) n = bit v n"
    unfolding le_Uint32_def le_PutUint32_def using n
    by (simp add: bit_or_iff hi lo) arith
qed

lemma le_Uint64_PutUint64: "le_Uint64 (le_PutUint64 v) = v"
proof (rule bit_word_eqI)
  fix n assume n: "n < LENGTH(64)"
  have hi: "\<And>k. k + 8 \<le> 64 \<Longrightarrow>
      bit (push_bit k (ucast (ucast (drop_bit k v) :: byte) :: 64 word)) n
        = (k \<le> n \<and> n < k + 8 \<and> bit v n)"
    by (auto simp add: bit_simps)
  have lo: "bit (ucast (ucast v :: byte) :: 64 word) n = (n < 8 \<and> bit v n)"
    by (auto simp add: bit_simps)
  show "bit (le_Uint64 (le_PutUint64 v)) n = bit v n"
    unfolding le_Uint64_def le_PutUint64_def using n
    by (simp add: bit_or_iff hi lo) arith
qed

lemma Uint32_PutUint32: "Uint32 order (PutUint32 order v) = v"
  by (cases order) (simp_all add: Uint32_def PutUint32_def le_Uint32_PutUint32)

lemma Uint64_PutUint64: "Uint64 order (PutUint64 order v) = v"
  by (cases order) (simp_all add: Uint64_def PutUint64_def le_Uint64_PutUint64)

lemma length_PutUint16: "length (PutUint16 order v) = 2"
  by (cases order) (simp_all add: PutUint16_def le_PutUint16_def)

lemma length_PutUint32: "length (PutUint32 order v) = 4"
  by (cases order) (simp_all add: PutUint32_def le_PutUint32_def)

lemma length_PutUint64: "length (PutUint64 order v) = 8"
  by (cases order) (simp_all add: PutUint64_def le_PutUint64_def)

lemma length_encodeHeader: "length (encodeHeader order h) = 8"
  by (simp add: encodeHeader_def length_PutUint32 length_PutUint16)

subsection \<open>Decoding one record\<close>

lemma ReadFull_append: "length bs = n \<Longrightarrow> ReadFull (bs @ rest) n = (bs, None, rest)"
  by (simp add: ReadFull_def)

lemma binary_Read_header_encode:
  "\<exists>h'. binary_Read_header order (encodeHeader order h @ rest) = (None, h', rest)
         \<and> Type h' = Type h"
  by (simp add: binary_Read_header_def ReadFull_append length_encodeHeader)
     (simp add: encodeHeader_def length_PutUint32 Uint32_PutUint32)

lemma readLostRecords_encode:
  "readLostRecords order (PutUint64 order ident @ PutUint64 order lost @ rest)
     = ((lost, None), rest)"
proof -
  have "ReadFull ((PutUint64 order ident @ PutUint64 order lost) @ rest) 16
        = (PutUint64 order ident @ PutUint64 order lost, None, rest)"
    by (rule ReadFull_append) (simp add: length_PutUint64)
  then show ?thesis
    by (simp add: readLostRecords_def length_PutUint64 Uint64_PutUint64)
qed

lemma readRawSample_encode:
  assumes "length data = unat sz"
  shows "readRawSample order (PutUint32 order sz @ data @ rest) = ((Some data, None), rest)"
proof -
  have "ReadFull (PutUint32 order sz @ data @ rest) 4 = (PutUint32 order sz, None, data @ rest)"
    by (rule ReadFull_append) (simp add: length_PutUint32)
  moreover have "ReadFull (data @ rest) (unat sz) = (data, None, rest)"
    using assms by (intro ReadFull_append)
  ultimately show ?thesis
    by (simp add: readRawSample_def Uint32_PutUint32 Wrap_def Wrapf_def)
qed

text \<open>
  C2. A header of type 2 followed by the body \<open>{id, lost_count}\<close>, both in the native
  byte order, decodes without an error to the record of the given CPU whose
  lost-samples count is \<open>lost_count\<close> and whose sample is \<open>nil\<close>. The bytes that follow
  the record are left in the reader.
\<close>

theorem readRecord_Lost_roundtrip:
  "Type h = 2 \<Longrightarrow>
   readRecord order
     (encodeHeader order h @ PutUint64 order ident @ PutUint64 order lost_count @ rest) c
     = ((\<lparr>CPU = c, RawSample = None, LostSamples = lost_count\<rparr>, None), rest)"
  using binary_Read_header_encode
          [of order h "PutUint64 order ident @ PutUint64 order lost_count @ rest"]
  by (auto simp add: readRecord_def perfRecordLost_def readLostRecords_encode)

theorem readRecord_Lost_roundtrip_witness:
  "readRecord BigEndian
     (encodeHeader BigEndian \<lparr>Type = 2, Misc = 0, Size = 24\<rparr> @ PutUint64 BigEndian 77
        @ PutUint64 BigEndian 5 @ []) 1
     = ((\<lparr>CPU = 1, RawSample = None, LostSamples = 5\<rparr>, None), [])"
  using readRecord_Lost_roundtrip
          [where h = "\<lparr>Type = 2, Misc = 0, Size = 24\<rparr>" and order = BigEndian and ident = 77
             and lost_count = 5 and rest = "[]" and c = 1]
  by simp

text \<open>
  C3. A header of type 9 followed by the body \<open>{size, data}\<close> with \<open>data\<close> of \<open>size\<close>
  bytes decodes without an error to the record of the given CPU whose sample is \<open>data\<close>,
  of length exactly \<open>size\<close>, and whose lost-samples count is zero.
\<close>

theorem readRecord_Sample_roundtrip:
  "Type h = 9 \<Longrightarrow> length data = unat sz \<Longrightarrow>
   (case readRecord order (encodeHeader order h @ PutUint32 order sz @ data @ rest) c of
      ((rcd, err), rd') \<Rightarrow>
        err = None \<and> RawSample rcd = Some data \<and> length (the (RawSample rcd)) = unat sz
        \<and> LostSamples rcd = 0 \<and> CPU rcd = c \<and> rd' = rest)"
  using binary_Read_header_encode [of order h "PutUint32 order sz @ data @ rest"]
  by (auto simp add: readRecord_def perfRecordLost_def perfRecordSample_def readRawSample_encode)

theorem readRecord_Sample_roundtrip_witness:
  "readRecord LittleEndian
     (encodeHeader LittleEndian \<lparr>Type = 9, Misc = 0, Size = 16\<rparr> @ PutUint32 LittleEndian 3
        @ [1, 2, 3] @ [0]) 1
     = ((\<lparr>CPU = 1, RawSample = Some [1, 2, 3], LostSamples = 0\<rparr>, None), [0])"
  using readRecord_Sample_roundtrip
          [where h = "\<lparr>Type = 9, Misc = 0, Size = 16\<rparr>" and data = "[1, 2, 3]" and sz = 3
             and order = LittleEndian and rest = "[0]" and c = 1]
  by (auto split: prod.splits)

text \<open>
  C4. On an input whose first 8 bytes are a header with a type other than 2 and 9,
  decoding returns the zero record (no sample, no lost samples) and an error that
  \<open>IsUnknownEvent\<close> recognises and \<open>IsClosed\<close> does not; the error carries the type.
\<close>

theorem readRecord_unknown_type:
  "8 \<le> length rd \<Longrightarrow> Uint32 order (take 4 rd) \<noteq> 2 \<Longrightarrow> Uint32 order (take 4 rd) \<noteq> 9 \<Longrightarrow>
   (\<exists>err. readRecord order rd c = ((Record_zero, Some err), drop 8 rd)
      \<and> err = unknownEventError (Uint32 order (take 4 rd))
      \<and> IsUnknownEvent err \<and> \<not> IsClosed err
      \<and> RawSample Record_zero = None \<and> LostSamples Record_zero = 0)"
  by (simp add: readRecord_def binary_Read_header_def ReadFull_def perfRecordLost_def
        perfRecordSample_def IsUnknownEvent_def IsClosed_def Record_zero_def)

theorem readRecord_unknown_type_witness:
  "readRecord LittleEndian [5, 0, 0, 0, 0, 0, 8, 0, 42] 1
     = ((Record_zero, Some (unknownEventError 5)), [42])
   \<and> IsUnknownEvent (unknownEventError 5) \<and> \<not> IsClosed (unknownEventError 5)"
proof -
  have t: "Uint32 LittleEndian [5, 0, 0, 0] = 5"
    by (simp add: Uint32_def le_Uint32_def)
  show ?thesis
    using readRecord_unknown_type
            [where rd = "[5, 0, 0, 0, 0, 0, 8, 0, 42]" and order = LittleEndian and c = 1]
    by (simp add: t)
qed

text \<open>
  C10. \<open>readRecord\<close> returns \<open>errEOR\<close> exactly when the reader has no byte left at
  the start of the header. An input that ends inside the header, inside the body of
  a lost record, inside the size of a sample or before the declared size of the
  sample is reached gives a wrapped \<open>io.EOF\<close> or \<open>io.ErrUnexpectedEOF\<close>, which is not
  \<open>errEOR\<close>.
\<close>

theorem readRecord_end_of_ring:
  "((snd (fst (readRecord order rd c)) = Some errEOR) = (rd = []))
   \<and> (0 < length rd \<and> length rd < 8 \<longrightarrow>
        snd (fst (readRecord order rd c))
          = Some (Wrapped IoErrUnexpectedEOF ''can't read event header'' []))
   \<and> (8 \<le> length rd \<and> length rd < 24 \<and> Uint32 order (take 4 rd) = 2 \<longrightarrow>
        snd (fst (readRecord order rd c))
          = Some (Wrapped (if length rd = 8 then IoEOF else IoErrUnexpectedEOF)
                    ''can't read lost records header'' []))
   \<and> (8 \<le> length rd \<and> length rd < 12 \<and> Uint32 order (take 4 rd) = 9 \<longrightarrow>
        snd (fst (readRecord order rd c))
          = Some (Wrapped (if length rd = 8 then IoEOF else IoErrUnexpectedEOF)
                    ''can't read sample size'' []))
   \<and> (12 \<le> length rd \<and> length rd < 12 + unat (Uint32 order (take 4 (drop 8 rd)))
        \<and> Uint32 order (take 4 rd) = 9 \<longrightarrow>
        snd (fst (readRecord order rd c))
          = Some (Wrapped (if length rd = 12 then IoEOF else IoErrUnexpectedEOF)
                    ''can't read sample'' []))"
proof (intro conjI impI)
  show "(snd (fst (readRecord order rd c)) = Some errEOR) = (rd = [])"
    by (auto simp add: readRecord_def binary_Read_header_def readLostRecords_def
          readRawSample_def ReadFull_def Wrap_def Wrapf_def Let_def
        split: if_splits prod.splits option.splits)
next
  assume "0 < length rd \<and> length rd < 8"
  then show "snd (fst (readRecord order rd c))
          = Some (Wrapped IoErrUnexpectedEOF ''can't read event header'' [])"
    by (auto simp add: readRecord_def binary_Read_header_def ReadFull_def Wrap_def Wrapf_def)
next
  assume "8 \<le> length rd \<and> length rd < 24 \<and> Uint32 order (take 4 rd) = 2"
  then show "snd (fst (readRecord order rd c))
          = Some (Wrapped (if length rd = 8 then IoEOF else IoErrUnexpectedEOF)
                    ''can't read lost records header'' [])"
    by (auto simp add: readRecord_def binary_Read_header_def readLostRecords_def
          perfRecordLost_def ReadFull_def Wrap_def Wrapf_def)
next
  assume "8 \<le> length rd \<and> length rd < 12 \<and> Uint32 order (take 4 rd) = 9"
  then show "snd (fst (readRecord order rd c))
          = Some (Wrapped (if length rd = 8 then IoEOF else IoErrUnexpectedEOF)
                    ''can't read sample size'' [])"
    by (auto simp add: readRecord_def binary_Read_header_def readRawSample_def
          perfRecordLost_def perfRecordSample_def ReadFull_def Wrap_def Wrapf_def)
next
  assume a: "12 \<le> length rd \<and> length rd < 12 + unat (Uint32 order (take 4 (drop 8 rd)))
        \<and> Uint32 order (take 4 rd) = 9"
  from a show "snd (fst (readRecord order rd c))
          = Some (Wrapped (if length rd = 12 then IoEOF else IoErrUnexpectedEOF)
                    ''can't read sample'' [])"
    by (auto simp add: readRecord_def binary_Read_header_def readRawSample_def
          perfRecordLost_def perfRecordSample_def ReadFull_def Wrap_def Wrapf_def Let_def)
qed

theorem readRecord_end_of_ring_witness:
  "snd (fst (readRecord LittleEndian [] 0)) = Some errEOR
   \<and> snd (fst (readRecord LittleEndian [2, 0, 0, 0, 0, 0, 24, 0] 0))
       = Some (Wrapped IoEOF ''can't read lost records header'' [])
   \<and> snd (fst (readRecord LittleEndian [2, 0, 0, 0, 0, 0, 24, 0, 1, 1, 1] 0))
       = Some (Wrapped IoErrUnexpectedEOF ''can't read lost records header'' [])
   \<and> snd (fst (readRecord LittleEndian [9, 0, 0, 0, 0, 0, 16, 0, 4, 0] 0))
       = Some (Wrapped IoErrUnexpectedEOF ''can't read sample size'' [])
   \<and> snd (fst (readRecord LittleEndian [9, 0, 0, 0, 0, 0, 16, 0, 4, 0, 0, 0, 7, 7] 0))
       = Some (Wrapped IoErrUnexpectedEOF ''can't read sample'' [])
   \<and> snd (fst (readRecord LittleEndian [9, 0, 0] 0))
       = Some (Wrapped IoErrUnexpectedEOF ''can't read event header'' [])"
proof -
  have t2: "Uint32 LittleEndian [2, 0, 0, 0] = 2" and t9: "Uint32 LittleEndian [9, 0, 0, 0] = 9"
    and t4: "Uint32 LittleEndian [4, 0, 0, 0] = 4"
    by (simp_all add: Uint32_def le_Uint32_def)
  show ?thesis
    using readRecord_end_of_ring [where order = LittleEndian and rd = "[]" and c = 0]
      readRecord_end_of_ring [where order = LittleEndian and rd = "[2, 0, 0, 0, 0, 0, 24, 0]"
        and c = 0]
      readRecord_end_of_ring [where order = LittleEndian
        and rd = "[2, 0, 0, 0, 0, 0, 24, 0, 1, 1, 1]" and c = 0]
      readRecord_end_of_ring [where order = LittleEndian
        and rd = "[9, 0, 0, 0, 0, 0, 16, 0, 4, 0]" and c = 0]
      readRecord_end_of_ring [where order = LittleEndian
        and rd = "[9, 0, 0, 0, 0, 0, 16, 0, 4, 0, 0, 0, 7, 7]" and c = 0]
      readRecord_end_of_ring [where order = LittleEndian and rd = "[9, 0, 0]" and c = 0]
    by (simp add: t2 t9 t4)
qed

subsection \<open>\<open>Read\<close>\<close>

lemma readRecord_error_shape:
  "readRecord order rd c = ((rcd, Some e), rd') \<Longrightarrow>
     e = errEOR \<or> (\<exists>e0 m a. e = Wrapped e0 m a) \<or> (\<exists>t. e = unknownEventError t)"
  by (auto simp add: readRecord_def binary_Read_header_def readLostRecords_def readRawSample_def
        ReadFull_def Wrap_def Wrapf_def Let_def
      split: if_splits prod.splits option.splits)

lemma Temporary_shape:
  "e = errEOR \<or> (\<exists>e0 m a. e = Wrapped e0 m a) \<or> (\<exists>t. e = unknownEventError t) \<Longrightarrow> \<not> Temporary e"
  by (auto simp add: Temporary_def)

lemma readTop_not_Temporary:
  "readTop order pr = Some ((rcd, Some e), pr') \<Longrightarrow> \<not> Temporary e"
  by (auto simp add: readTop_def readRecordFromRing_def Let_def
      split: if_splits prod.splits dest!: readRecord_error_shape Temporary_shape)

lemma pushEvents_Returns:
  "pushEvents evs pr = (Some (Returns rcd err), pr') \<Longrightarrow> rcd = Record_zero \<and> err = Some errClosed"
  by (induction evs pr rule: pushEvents.induct) (auto simp add: Let_def split: if_splits)

lemma waitPhase_Stop_not_Temporary:
  "waitPhase ws pr = Stop (Returns rcd (Some e)) pr' ws' \<Longrightarrow> \<not> Temporary e"
  by (auto simp add: waitPhase_def Let_def Temporary_def
      split: if_splits list.splits prod.splits option.splits dest!: pushEvents_Returns)

lemma Read_loop_not_Temporary:
  "Read_loop order ws pr = (Returns rcd (Some e), pr', ws') \<Longrightarrow> \<not> Temporary e"
proof (induction order ws pr rule: Read_loop.induct)
  case (1 order ws pr)
  show ?case
  proof (cases "waitPhase ws pr")
    case (Retry ws1 pr1)
    with "1.prems" have "Read_loop order ws1 pr1 = (Returns rcd (Some e), pr', ws')"
      by (simp add: Read_loop.simps [of order ws pr])
    with "1.IH"(1) [OF Retry] show ?thesis .
  next
    case (Stop r pr1 ws1)
    with "1.prems" have "waitPhase ws pr = Stop (Returns rcd (Some e)) pr' ws'"
      by (simp add: Read_loop.simps [of order ws pr])
    then show ?thesis by (rule waitPhase_Stop_not_Temporary)
  next
    case (Go pr1 ws1)
    show ?thesis
    proof (cases "readTop order pr1")
      case None
      with Go "1.prems" show ?thesis
        by (simp add: Read_loop.simps [of order ws pr])
    next
      case (Some a)
      then obtain rcd1 err1 pr2 where a: "readTop order pr1 = Some ((rcd1, err1), pr2)"
        by (cases a) auto
      show ?thesis
      proof (cases "err1 = Some errEOR")
        case True
        with Go a "1.prems"
        have "Read_loop order ws1 (pr2\<lparr>epollRings := butlast (epollRings pr2)\<rparr>)
                = (Returns rcd (Some e), pr', ws')"
          by (simp add: Read_loop.simps [of order ws pr])
        with "1.IH"(2) [OF Go a refl refl True] show ?thesis .
      next
        case False
        with Go a "1.prems" have "readTop order pr1 = Some ((rcd, Some e), pr')"
          by (simp add: Read_loop.simps [of order ws pr])
        then show ?thesis by (rule readTop_not_Temporary)
      qed
    qed
  qed
qed

lemma IsUnknownEvent_simps:
  "\<not> IsUnknownEvent errClosed" "\<not> IsUnknownEvent errEOR" "\<not> IsUnknownEvent (Errno e)"
  by (simp_all add: IsUnknownEvent_def)

lemma readTop_Some:
  "readTop order pr = Some (res, pr') \<Longrightarrow>
     epollRings pr \<noteq> [] \<and> last (epollRings pr) < length (rings pr)
     \<and> (\<exists>ring'. readRecordFromRing order (rings pr ! last (epollRings pr)) = (res, ring')
           \<and> pr' = pr\<lparr>rings := (rings pr)[last (epollRings pr) := ring']\<rparr>)"
  by (auto simp add: readTop_def Let_def split: if_splits prod.splits)

lemma waitPhase_Stop_not_unknown:
  "waitPhase ws pr = Stop (Returns rcd (Some e)) pr' ws' \<Longrightarrow> \<not> IsUnknownEvent e"
  by (auto simp add: waitPhase_def Let_def EpollWait_def IsUnknownEvent_simps
      split: if_splits list.splits prod.splits option.splits dest!: pushEvents_Returns)

lemma kernelWrites_nothing: "kernelWrites (\<lambda>i. []) rs = rs"
  by (simp add: kernelWrites_def map_nth)

lemma readRecord_unknown_shape:
  "readRecord order rd c = ((rcd, Some e), rd') \<Longrightarrow> IsUnknownEvent e \<Longrightarrow>
     rcd = Record_zero \<and> 8 \<le> length rd \<and> rd' = drop 8 rd
     \<and> e = unknownEventError (Uint32 order (take 4 rd))"
  by (auto simp add: readRecord_def binary_Read_header_def readLostRecords_def readRawSample_def
        ReadFull_def Wrap_def Wrapf_def Let_def IsUnknownEvent_def
      split: if_splits prod.splits option.splits)

lemma readRecordFromRing_unknown:
  "readRecordFromRing order ring = ((rcd, Some e), ring') \<Longrightarrow> IsUnknownEvent e \<Longrightarrow>
     rcd = Record_zero \<and> 8 \<le> length (unread ring)
     \<and> ring' = ring\<lparr>unread := drop 8 (unread ring), tail := tail ring + 8,
                      dataTail := tail ring + 8\<rparr>"
  by (auto simp add: readRecordFromRing_def writeTail_def split: prod.splits
      dest!: readRecord_unknown_shape)

text \<open>
  The scenario of two CPUs: the kernel writes one sample to the ring of CPU 0, \<open>Read\<close>
  returns it; the next \<open>Read\<close> finds the ring drained, waits, and is ended by the event
  of the close descriptor.
\<close>

lemma Read_scenario:
  "fst (Read LittleEndian [wait_sample, wait_close] reader2)
     = Returns \<lparr>CPU = 0, RawSample = Some [7, 7], LostSamples = 0\<rparr> None
   \<and> fst (Read LittleEndian (snd (snd (Read LittleEndian [wait_sample, wait_close] reader2)))
            (fst (snd (Read LittleEndian [wait_sample, wait_close] reader2))))
       = Returns Record_zero (Some errClosed)"
proof -
  have t: "Uint32 LittleEndian [9, 0, 0, 0] = 9" "Uint32 LittleEndian [2, 0, 0, 0] = 2"
    by (simp_all add: Uint32_def le_Uint32_def)
  let ?ring0 = "\<lparr>cpu = 0, fd = 10, unread = [9, 0, 0, 0, 0, 0, 14, 0, 2, 0, 0, 0, 7, 7],
                  produced = [], tail = 0, dataTail = 0\<rparr>"
  let ?ring0' = "\<lparr>cpu = 0, fd = 10, unread = [], produced = [], tail = 14, dataTail = 14\<rparr>"
  let ?ring1 = "\<lparr>cpu = 1, fd = 11, unread = [], produced = [], tail = 0, dataTail = 0\<rparr>"
  let ?ev = "[\<lparr>Events = EPOLLIN, Fd = 10, Pad = 0\<rparr>, zeroEvent, zeroEvent]"
  let ?pr1 = "reader2\<lparr>rings := [?ring0, ?ring1], epollEvents := ?ev, epollRings := [0]\<rparr>"
  let ?pr2 = "reader2\<lparr>rings := [?ring0', ?ring1], epollEvents := ?ev, epollRings := [0]\<rparr>"
  let ?pr3 = "reader2\<lparr>rings := [?ring0', ?ring1], epollEvents := ?ev, epollRings := []\<rparr>"
  let ?pr4 = "reader2\<lparr>rings := [?ring0', ?ring1],
                epollEvents := [\<lparr>Events = EPOLLIN, Fd = 20, Pad = -1\<rparr>, zeroEvent, zeroEvent],
                epollRings := []\<rparr>"
  have k: "kernelWrites (wrote wait_sample) (rings reader2)
             = [\<lparr>cpu = 0, fd = 10, unread = [], produced = [9, 0, 0, 0, 0, 0, 14, 0, 2, 0, 0, 0, 7, 7],
                  tail = 0, dataTail = 0\<rparr>, ?ring1]"
    by (simp add: kernelWrites_def wait_sample_def reader2_def upt_rec)
  have w1: "waitPhase [wait_sample, wait_close] reader2 = Go ?pr1 [wait_close]"
    by (simp add: waitPhase_def k EpollWait_def)
       (simp add: wait_sample_def reader2_def cpuForEvent_def loadHead_def)
  have r1: "readTop LittleEndian ?pr1
              = Some ((\<lparr>CPU = 0, RawSample = Some [7, 7], LostSamples = 0\<rparr>, None), ?pr2)"
    by (simp add: readTop_def readRecordFromRing_def readRecord_def binary_Read_header_def
          ReadFull_def t perfRecordLost_def perfRecordSample_def readRawSample_def
          Wrap_def Wrapf_def Let_def writeTail_def reader2_def)
  have R1: "Read LittleEndian [wait_sample, wait_close] reader2
              = (Returns \<lparr>CPU = 0, RawSample = Some [7, 7], LostSamples = 0\<rparr> None, ?pr2, [wait_close])"
    using w1 r1
    by (simp add: Read_def Read_loop.simps [of LittleEndian "[wait_sample, wait_close]" reader2])
       (simp add: reader2_def)
  have w2: "waitPhase [wait_close] ?pr2 = Go ?pr2 [wait_close]"
    by (simp add: waitPhase_def)
  have r2: "readTop LittleEndian ?pr2 = Some ((Record_zero, Some errEOR), ?pr2)"
    by (simp add: readTop_def readRecordFromRing_def readRecord_def binary_Read_header_def
          ReadFull_def writeTail_def reader2_def)
  have w3: "waitPhase [wait_close] ?pr3 = Stop (Returns Record_zero (Some errClosed)) ?pr4 []"
    by (simp add: waitPhase_def EpollWait_def wait_close_def kernelWrites_nothing)
       (simp add: reader2_def kernelWrites_nothing)
  have L3: "Read_loop LittleEndian [wait_close] ?pr3
              = (Returns Record_zero (Some errClosed), ?pr4, [])"
    using w3 by (simp add: Read_loop.simps [of LittleEndian "[wait_close]" ?pr3])
  have R2: "Read LittleEndian [wait_close] ?pr2 = (Returns Record_zero (Some errClosed), ?pr4, [])"
    using w2 r2 L3
    by (simp add: Read_def Read_loop.simps [of LittleEndian "[wait_close]" ?pr2])
       (simp add: reader2_def)
  show ?thesis by (simp add: R1 R2)
qed

lemma nextHead_Read_loop:
  "nextHead order ws pr = Some (ws', pr') \<Longrightarrow> Read_loop order ws pr = Read_loop order ws' pr'"
  by (subst Read_loop.simps)
     (auto simp add: nextHead_def split: phase.splits option.splits prod.splits if_splits)

lemma loopHead_Read_loop:
  "loopHead order n ws pr = Some (ws0, pr0) \<Longrightarrow> Read_loop order ws pr = Read_loop order ws0 pr0"
proof (induction n arbitrary: ws pr)
  case 0
  then show ?case by simp
next
  case (Suc n)
  then obtain ws1 pr1 where h: "nextHead order ws pr = Some (ws1, pr1)"
    and l: "loopHead order n ws1 pr1 = Some (ws0, pr0)"
    by (auto split: option.splits)
  from h have "Read_loop order ws pr = Read_loop order ws1 pr1" by (rule nextHead_Read_loop)
  with Suc.IH [OF l] show ?case by simp
qed

lemma pushEvents_epollFd: "pushEvents evs pr = (r, pr') \<Longrightarrow> epollFd pr' = epollFd pr"
  by (induction evs pr rule: pushEvents.induct) (auto simp add: Let_def split: if_splits)

lemma nextHead_epollFd: "nextHead order ws pr = Some (ws', pr') \<Longrightarrow> epollFd pr' = epollFd pr"
  by (auto simp add: nextHead_def waitPhase_def readTop_def Let_def
      split: phase.splits option.splits prod.splits if_splits list.splits
      dest!: pushEvents_epollFd)

lemma loopHead_epollFd: "loopHead order n ws pr = Some (ws0, pr0) \<Longrightarrow> epollFd pr0 = epollFd pr"
proof (induction n arbitrary: ws pr)
  case 0
  then show ?case by simp
next
  case (Suc n)
  then obtain ws1 pr1 where h: "nextHead order ws pr = Some (ws1, pr1)"
    and l: "loopHead order n ws1 pr1 = Some (ws0, pr0)"
    by (auto split: option.splits)
  from Suc.IH [OF l] nextHead_epollFd [OF h] show ?case by simp
qed

lemma waitPhase_interrupted:
  "epollRings pr = [] \<Longrightarrow> interrupted w \<Longrightarrow>
   waitPhase (w # ws) pr = Retry ws (pr\<lparr>rings := kernelWrites (wrote w) (rings pr)\<rparr>)"
  by (auto simp add: waitPhase_def EpollWait_def interrupted_def split: option.splits)

lemma Read_loop_retry:
  assumes "loopHead order n ws pr = Some (w # ws0, pr0)" and "epollRings pr0 = []"
    and "interrupted w"
  shows "Read_loop order ws pr
           = Read_loop order ws0 (pr0\<lparr>rings := kernelWrites (wrote w) (rings pr0)\<rparr>)"
proof -
  have "nextHead order (w # ws0) pr0
          = Some (ws0, pr0\<lparr>rings := kernelWrites (wrote w) (rings pr0)\<rparr>)"
    using assms(2,3) by (simp add: nextHead_def waitPhase_interrupted)
  then have "Read_loop order (w # ws0) pr0
          = Read_loop order ws0 (pr0\<lparr>rings := kernelWrites (wrote w) (rings pr0)\<rparr>)"
    by (rule nextHead_Read_loop)
  with loopHead_Read_loop [OF assms(1)] show ?thesis by simp
qed

lemma waitPhase_filter:
  assumes "\<forall>w\<in>set ws. interrupted w \<longrightarrow> wrote w = (\<lambda>i. [])"
  shows "(case waitPhase ws pr of
            Retry ws' pr' \<Rightarrow> pr' = pr \<and> (\<exists>w. ws = w # ws' \<and> interrupted w)
          | Stop r pr' ws' \<Rightarrow>
              waitPhase (filter (\<lambda>w. \<not> interrupted w) ws) pr
                = Stop r pr' (filter (\<lambda>w. \<not> interrupted w) ws')
              \<and> (\<forall>w\<in>set ws'. interrupted w \<longrightarrow> wrote w = (\<lambda>i. []))
          | Go pr' ws' \<Rightarrow>
              waitPhase (filter (\<lambda>w. \<not> interrupted w) ws) pr
                = Go pr' (filter (\<lambda>w. \<not> interrupted w) ws')
              \<and> (\<forall>w\<in>set ws'. interrupted w \<longrightarrow> wrote w = (\<lambda>i. [])))"
proof (cases "epollRings pr = []")
  case False
  with assms show ?thesis by (simp add: waitPhase_def)
next
  case True
  show ?thesis
  proof (cases ws)
    case Nil
    with True show ?thesis by (simp add: waitPhase_def)
  next
    case (Cons w ws1)
    show ?thesis
    proof (cases "interrupted w")
      case i: True
      with assms Cons have "wrote w = (\<lambda>i. [])" by simp
      with True i Cons show ?thesis
        by (simp add: waitPhase_interrupted kernelWrites_nothing)
    next
      case n: False
      with True Cons assms show ?thesis
        by (auto simp add: waitPhase_def EpollWait_def interrupted_def Let_def
            split: option.splits prod.splits)
    qed
  qed
qed

lemma Read_loop_filter:
  "\<forall>w\<in>set ws. interrupted w \<longrightarrow> wrote w = (\<lambda>i. []) \<Longrightarrow>
   Read_loop order ws pr = (r, pr', ws') \<Longrightarrow>
   Read_loop order (filter (\<lambda>w. \<not> interrupted w) ws) pr
     = (r, pr', filter (\<lambda>w. \<not> interrupted w) ws')"
proof (induction order ws pr rule: Read_loop.induct)
  case (1 order ws pr)
  note wf = waitPhase_filter [OF "1.prems"(1), of pr]
  show ?case
  proof (cases "waitPhase ws pr")
    case (Retry ws1 pr1)
    with wf obtain w where ws: "ws = w # ws1" and i: "interrupted w" and pr1: "pr1 = pr"
      by auto
    from ws "1.prems"(1) have a: "\<forall>w\<in>set ws1. interrupted w \<longrightarrow> wrote w = (\<lambda>i. [])" by simp
    from Retry "1.prems"(2) have "Read_loop order ws1 pr1 = (r, pr', ws')"
      by (simp add: Read_loop.simps [of order ws pr])
    from "1.IH"(1) [OF Retry a this] ws i pr1 show ?thesis by simp
  next
    case (Stop r1 pr1 ws1)
    with wf have w: "waitPhase (filter (\<lambda>w. \<not> interrupted w) ws) pr
                = Stop r1 pr1 (filter (\<lambda>w. \<not> interrupted w) ws1)" by simp
    from Stop "1.prems"(2) have "r = r1 \<and> pr' = pr1 \<and> ws' = ws1"
      by (simp add: Read_loop.simps [of order ws pr])
    with w show ?thesis
      by (simp add: Read_loop.simps [of order "filter (\<lambda>w. \<not> interrupted w) ws" pr])
  next
    case (Go pr1 ws1)
    with wf have w: "waitPhase (filter (\<lambda>w. \<not> interrupted w) ws) pr
                = Go pr1 (filter (\<lambda>w. \<not> interrupted w) ws1)"
      and a: "\<forall>w\<in>set ws1. interrupted w \<longrightarrow> wrote w = (\<lambda>i. [])" by simp_all
    show ?thesis
    proof (cases "readTop order pr1")
      case None
      with Go "1.prems"(2) have "r = Panics \<and> pr' = pr1 \<and> ws' = ws1"
        by (simp add: Read_loop.simps [of order ws pr])
      with w None show ?thesis
        by (simp add: Read_loop.simps [of order "filter (\<lambda>w. \<not> interrupted w) ws" pr])
    next
      case (Some x)
      then obtain rcd1 err1 pr2 where x: "readTop order pr1 = Some ((rcd1, err1), pr2)"
        by (cases x) auto
      show ?thesis
      proof (cases "err1 = Some errEOR")
        case True
        with Go x "1.prems"(2)
        have "Read_loop order ws1 (pr2\<lparr>epollRings := butlast (epollRings pr2)\<rparr>) = (r, pr', ws')"
          by (simp add: Read_loop.simps [of order ws pr])
        from "1.IH"(2) [OF Go x refl refl True a this] w x True show ?thesis
          by (simp add: Read_loop.simps [of order "filter (\<lambda>w. \<not> interrupted w) ws" pr])
      next
        case False
        with Go x "1.prems"(2) have "r = Returns rcd1 err1 \<and> pr' = pr2 \<and> ws' = ws1"
          by (simp add: Read_loop.simps [of order ws pr])
        with w x False show ?thesis
          by (simp add: Read_loop.simps [of order "filter (\<lambda>w. \<not> interrupted w) ws" pr])
      qed
    qed
  qed
qed

lemma nextHead_drained:
  "nextHead LittleEndian ws reader2_drained = Some (ws, reader2)"
proof -
  have w: "waitPhase ws reader2_drained = Go reader2_drained ws"
    by (simp add: waitPhase_def reader2_drained_def)
  have r: "readTop LittleEndian reader2_drained
             = Some ((Record_zero, Some errEOR), reader2_drained)"
    by (simp add: readTop_def readRecordFromRing_def readRecord_def binary_Read_header_def
          ReadFull_def writeTail_def reader2_drained_def reader2_def)
  show ?thesis
    by (simp add: nextHead_def w r) (simp add: reader2_drained_def reader2_def)
qed

lemma interrupted_fixtures:
  "interrupted wait_EINTR" "\<not> interrupted wait_close" "\<not> interrupted wait_EBADF"
  "wrote wait_EINTR = (\<lambda>i. [])"
  by (simp_all add: interrupted_def wait_EINTR_def wait_close_def wait_EBADF_def Temporary_def)

lemma Read_close_event:
  "Read LittleEndian [wait_close] reader2
     = (Returns Record_zero (Some errClosed),
        reader2\<lparr>epollEvents := [\<lparr>Events = EPOLLIN, Fd = 20, Pad = -1\<rparr>, zeroEvent, zeroEvent]\<rparr>,
        [])"
proof -
  have "waitPhase [wait_close] reader2
          = Stop (Returns Record_zero (Some errClosed))
              (reader2\<lparr>epollEvents := [\<lparr>Events = EPOLLIN, Fd = 20, Pad = -1\<rparr>, zeroEvent,
                                         zeroEvent]\<rparr>) []"
    by (simp add: waitPhase_def EpollWait_def wait_close_def kernelWrites_nothing)
       (simp add: reader2_def)
  then show ?thesis
    by (simp add: Read_def Read_loop.simps [of LittleEndian "[wait_close]" reader2])
       (simp add: reader2_def)
qed

text \<open>
  C7. A call of \<open>Read\<close> never returns an error that is \<open>Temporary\<close>, so no transient
  interruption of \<open>EpollWait\<close> reaches the caller; and an interrupted \<open>EpollWait\<close> is
  retried, at whatever iteration of the loop it happens. At the entry of \<open>Read\<close> with an
  empty stack, and more generally when the loop, after \<open>n\<close> iterations that ended in
  \<open>continue\<close> (rings drained and popped, earlier interruptions), stands with an empty
  stack and the next answer of \<open>EpollWait\<close> is an interruption, \<open>Read\<close> goes on with the
  answers left: its result is the result of the loop on the reader of that moment,
  unchanged but for what the kernel wrote to the rings in the meantime. Interruptions
  during which the kernel writes nothing are therefore not observable at all: removing
  them from the answers of \<open>EpollWait\<close> changes neither what \<open>Read\<close> returns nor the
  reader it leaves.
\<close>

theorem Read_never_Temporary:
  "(Read order ws pr = (Returns rcd (Some err), pr', ws') \<longrightarrow> \<not> Temporary err)
   \<and> (epollFd pr \<noteq> -1 \<and> epollRings pr = [] \<and> waitErr w = Some e \<and> Temporary (Errno e) \<longrightarrow>
        Read order (w # ws) pr = Read order ws (pr\<lparr>rings := kernelWrites (wrote w) (rings pr)\<rparr>))
   \<and> (epollFd pr \<noteq> -1 \<and> loopHead order n ws pr = Some (w # ws0, pr0) \<and> epollRings pr0 = []
        \<and> interrupted w \<longrightarrow>
        Read order ws pr = Read order ws0 (pr0\<lparr>rings := kernelWrites (wrote w) (rings pr0)\<rparr>))
   \<and> ((\<forall>v\<in>set ws. interrupted v \<longrightarrow> wrote v = (\<lambda>i. []))
        \<and> Read order ws pr = (r, pr1, ws1) \<longrightarrow>
        Read order (filter (\<lambda>v. \<not> interrupted v) ws) pr
          = (r, pr1, filter (\<lambda>v. \<not> interrupted v) ws1))"
proof (intro conjI impI)
  assume "Read order ws pr = (Returns rcd (Some err), pr', ws')"
  then show "\<not> Temporary err"
    by (auto simp add: Read_def Temporary_def split: if_splits dest: Read_loop_not_Temporary)
next
  assume a: "epollFd pr \<noteq> -1 \<and> epollRings pr = [] \<and> waitErr w = Some e \<and> Temporary (Errno e)"
  then have "waitPhase (w # ws) pr = Retry ws (pr\<lparr>rings := kernelWrites (wrote w) (rings pr)\<rparr>)"
    by (simp add: waitPhase_def EpollWait_def)
  with a show "Read order (w # ws) pr
                 = Read order ws (pr\<lparr>rings := kernelWrites (wrote w) (rings pr)\<rparr>)"
    by (simp add: Read_def Read_loop.simps [of order "w # ws" pr])
next
  assume b: "epollFd pr \<noteq> -1 \<and> loopHead order n ws pr = Some (w # ws0, pr0)
        \<and> epollRings pr0 = [] \<and> interrupted w"
  then have l: "loopHead order n ws pr = Some (w # ws0, pr0)" by simp
  from b have "Read_loop order ws pr
           = Read_loop order ws0 (pr0\<lparr>rings := kernelWrites (wrote w) (rings pr0)\<rparr>)"
    by (intro Read_loop_retry [of order n ws pr w ws0 pr0]) simp_all
  moreover from loopHead_epollFd [OF l] b have "epollFd pr0 \<noteq> -1" by simp
  ultimately show "Read order ws pr
      = Read order ws0 (pr0\<lparr>rings := kernelWrites (wrote w) (rings pr0)\<rparr>)"
    using b by (simp add: Read_def)
next
  assume c: "(\<forall>v\<in>set ws. interrupted v \<longrightarrow> wrote v = (\<lambda>i. []))
        \<and> Read order ws pr = (r, pr1, ws1)"
  show "Read order (filter (\<lambda>v. \<not> interrupted v) ws) pr
          = (r, pr1, filter (\<lambda>v. \<not> interrupted v) ws1)"
  proof (cases "epollFd pr = -1")
    case True
    with c show ?thesis by (auto simp add: Read_def)
  next
    case False
    with c have "Read_loop order ws pr = (r, pr1, ws1)" by (simp add: Read_def)
    with c have "Read_loop order (filter (\<lambda>v. \<not> interrupted v) ws) pr
          = (r, pr1, filter (\<lambda>v. \<not> interrupted v) ws1)"
      by (intro Read_loop_filter) simp_all
    with False show ?thesis by (simp add: Read_def)
  qed
qed

theorem Read_never_Temporary_witness:
  "Read LittleEndian [wait_EINTR, wait_EBADF] reader2
     = (Returns Record_zero (Some (Errno 9)), reader2, [])
   \<and> Read LittleEndian [wait_EINTR, wait_close] reader2_drained
       = (Returns Record_zero (Some errClosed),
          reader2\<lparr>epollEvents := [\<lparr>Events = EPOLLIN, Fd = 20, Pad = -1\<rparr>, zeroEvent,
                                     zeroEvent]\<rparr>, [])
   \<and> Read LittleEndian [wait_close] reader2_drained
       = Read LittleEndian [wait_EINTR, wait_close] reader2_drained
   \<and> Temporary (Errno 4) \<and> \<not> Temporary (Errno 9) \<and> \<not> Temporary errClosed"
proof -
  have t: "Temporary (Errno 4)" by (simp add: Temporary_def)
  have a: "epollFd reader2 \<noteq> -1 \<and> epollRings reader2 = [] \<and> waitErr wait_EINTR = Some 4
           \<and> Temporary (Errno 4)"
    by (simp add: reader2_def wait_EINTR_def t)
  have "waitPhase [wait_EBADF] reader2 = Stop (Returns Record_zero (Some (Errno 9))) reader2 []"
    by (simp add: waitPhase_def EpollWait_def wait_EBADF_def Temporary_def kernelWrites_nothing)
       (simp add: reader2_def)
  then have b: "Read LittleEndian [wait_EBADF] reader2
                  = (Returns Record_zero (Some (Errno 9)), reader2, [])"
    by (simp add: Read_def Read_loop.simps [of LittleEndian "[wait_EBADF]" reader2])
       (simp add: reader2_def)
  have c: "Read LittleEndian [wait_EINTR, wait_EBADF] reader2
             = (Returns Record_zero (Some (Errno 9)), reader2, [])"
    using Read_never_Temporary [where order = LittleEndian and pr = reader2 and w = wait_EINTR
             and e = 4 and ws = "[wait_EBADF]"] a b
    by (simp add: wait_EINTR_def kernelWrites_nothing)
  have n9: "\<not> Temporary (Errno 9)"
    using c Read_never_Temporary [where order = LittleEndian and pr = reader2
             and ws = "[wait_EINTR, wait_EBADF]" and rcd = Record_zero and err = "Errno 9"
             and pr' = reader2 and ws' = "[]"]
    by simp
  have l: "loopHead LittleEndian (Suc 0) [wait_EINTR, wait_close] reader2_drained
             = Some (wait_EINTR # [wait_close], reader2)"
    by (simp add: nextHead_drained)
  have f: "epollFd reader2_drained \<noteq> -1 \<and> epollRings reader2 = []"
    by (simp add: reader2_drained_def reader2_def)
  have d: "Read LittleEndian [wait_EINTR, wait_close] reader2_drained
             = Read LittleEndian [wait_close] reader2"
    using Read_never_Temporary [where order = LittleEndian and pr = reader2_drained
             and ws = "[wait_EINTR, wait_close]" and n = "Suc 0" and w = wait_EINTR
             and ?ws0.0 = "[wait_close]" and ?pr0.0 = reader2] l f
    by (simp add: interrupted_fixtures kernelWrites_nothing)
  have g: "Read LittleEndian [wait_close] reader2_drained
             = Read LittleEndian [wait_EINTR, wait_close] reader2_drained"
    using Read_never_Temporary [where order = LittleEndian and pr = reader2_drained
             and ws = "[wait_EINTR, wait_close]"
             and r = "fst (Read LittleEndian [wait_EINTR, wait_close] reader2_drained)"
             and ?pr1.0 = "fst (snd (Read LittleEndian [wait_EINTR, wait_close] reader2_drained))"
             and ?ws1.0 = "snd (snd (Read LittleEndian [wait_EINTR, wait_close] reader2_drained))"]
    by (simp add: interrupted_fixtures d Read_close_event)
  have nc: "\<not> Temporary errClosed" by (simp add: Temporary_def)
  from c d g t n9 nc show ?thesis by (simp add: Read_close_event)
qed

lemma Read_loop_unknown_head:
  "Read_loop order ws pr = (Returns rcd (Some e), pr', ws') \<Longrightarrow> IsUnknownEvent e \<Longrightarrow>
     \<exists>n ws0 pr0 pr1. loopHead order n ws pr = Some (ws0, pr0) \<and> waitPhase ws0 pr0 = Go pr1 ws'
        \<and> readTop order pr1 = Some ((rcd, Some e), pr')"
proof (induction order ws pr rule: Read_loop.induct)
  case (1 order ws pr)
  show ?case
  proof (cases "waitPhase ws pr")
    case (Retry ws1 pr1)
    with "1.prems" have "Read_loop order ws1 pr1 = (Returns rcd (Some e), pr', ws')"
      by (simp add: Read_loop.simps [of order ws pr])
    from "1.IH"(1) [OF Retry this "1.prems"(2)]
    obtain n ws0 pr0 pr2 where l: "loopHead order n ws1 pr1 = Some (ws0, pr0)"
      and g: "waitPhase ws0 pr0 = Go pr2 ws'"
      and t: "readTop order pr2 = Some ((rcd, Some e), pr')" by blast
    from Retry have "nextHead order ws pr = Some (ws1, pr1)" by (simp add: nextHead_def)
    with l have "loopHead order (Suc n) ws pr = Some (ws0, pr0)" by simp
    with g t show ?thesis by blast
  next
    case (Stop r pr1 ws1)
    with "1.prems" have "waitPhase ws pr = Stop (Returns rcd (Some e)) pr' ws'"
      by (simp add: Read_loop.simps [of order ws pr])
    with "1.prems"(2) show ?thesis by (simp add: waitPhase_Stop_not_unknown)
  next
    case (Go pr1 ws1)
    show ?thesis
    proof (cases "readTop order pr1")
      case None
      with Go "1.prems" show ?thesis
        by (simp add: Read_loop.simps [of order ws pr])
    next
      case (Some a)
      then obtain rcd1 err1 pr2 where a: "readTop order pr1 = Some ((rcd1, err1), pr2)"
        by (cases a) auto
      show ?thesis
      proof (cases "err1 = Some errEOR")
        case True
        with Go a "1.prems"
        have "Read_loop order ws1 (pr2\<lparr>epollRings := butlast (epollRings pr2)\<rparr>)
                = (Returns rcd (Some e), pr', ws')"
          by (simp add: Read_loop.simps [of order ws pr])
        from "1.IH"(2) [OF Go a refl refl True this "1.prems"(2)]
        obtain n ws0 pr0 pr3 where
          l: "loopHead order n ws1 (pr2\<lparr>epollRings := butlast (epollRings pr2)\<rparr>) = Some (ws0, pr0)"
          and g: "waitPhase ws0 pr0 = Go pr3 ws'"
          and t: "readTop order pr3 = Some ((rcd, Some e), pr')" by blast
        from Go a True
        have "nextHead order ws pr = Some (ws1, pr2\<lparr>epollRings := butlast (epollRings pr2)\<rparr>)"
          by (simp add: nextHead_def)
        with l have "loopHead order (Suc n) ws pr = Some (ws0, pr0)" by simp
        with g t show ?thesis by blast
      next
        case False
        with Go a "1.prems" have "readTop order pr1 = Some ((rcd, Some e), pr')" and "ws1 = ws'"
          by (simp_all add: Read_loop.simps [of order ws pr])
        moreover have "loopHead order 0 ws pr = Some (ws, pr)" by simp
        ultimately show ?thesis using Go by blast
      qed
    qed
  qed
qed

lemma waitPhase_unknown: "waitPhase [wait_unknown] reader2 = Go reader2_woken []"
proof -
  have k: "kernelWrites (wrote wait_unknown) (rings reader2)
             = [\<lparr>cpu = 0, fd = 10, unread = [], produced = [], tail = 0, dataTail = 0\<rparr>,
                \<lparr>cpu = 1, fd = 11, unread = [], produced = [5, 0, 0, 0, 0, 0, 8, 0],
                   tail = 0, dataTail = 0\<rparr>]"
    by (simp add: kernelWrites_def wait_unknown_def reader2_def upt_rec)
  show ?thesis
    by (simp add: waitPhase_def k EpollWait_def)
       (simp add: wait_unknown_def reader2_def reader2_woken_def cpuForEvent_def loadHead_def)
qed

text \<open>
  C9. When \<open>Read\<close> returns an error that \<open>IsUnknownEvent\<close> recognises, the loop of this
  call, started from the reader and the answers of \<open>EpollWait\<close> given to \<open>Read\<close>, has
  come after some iterations to a reader \<open>pr1\<close> with a ring on top of \<open>epollRings\<close>
  (found there, or pushed by the \<open>EpollWait\<close> of this iteration), the error comes from
  reading this ring, and the reader \<open>Read\<close> leaves is \<open>pr1\<close> with only this ring
  changed: \<open>epollRings\<close> is the same, with the same ring on top, so that the next
  \<open>Read\<close> does not wait and reads this ring again. Conversely, whenever the loop comes
  to a ring on top whose next record has an unknown type, after waiting or not, \<open>Read\<close>
  returns this error at once, with the answers of \<open>EpollWait\<close> left, and leaves
  \<open>epollRings\<close> as it is; in particular when \<open>Read\<close> is entered with such a ring on
  top. What changes in the ring is what reading a header changes: its 8 bytes are
  consumed and the tail, moved over them, is published.
\<close>

theorem Read_unknown_event_keeps_ring:
  "(Read order ws pr = (Returns rcd (Some err), pr', ws') \<and> IsUnknownEvent err \<longrightarrow>
      (\<exists>n ws0 pr0 pr1 ring'.
         loopHead order n ws pr = Some (ws0, pr0) \<and> waitPhase ws0 pr0 = Go pr1 ws'
         \<and> epollRings pr1 \<noteq> [] \<and> last (epollRings pr1) < length (rings pr1)
         \<and> readRecordFromRing order (rings pr1 ! last (epollRings pr1)) = ((rcd, Some err), ring')
         \<and> pr' = pr1\<lparr>rings := (rings pr1)[last (epollRings pr1) := ring']\<rparr>
         \<and> epollRings pr' = epollRings pr1))
   \<and> (Read order ws pr = (Returns rcd (Some err), pr', ws') \<and> IsUnknownEvent err \<longrightarrow>
        epollRings pr' \<noteq> [] \<and> last (epollRings pr') < length (rings pr')
        \<and> waitPhase ws2 pr' = Go pr' ws2)
   \<and> (epollFd pr \<noteq> -1 \<and> loopHead order n ws pr = Some (ws0, pr0)
        \<and> waitPhase ws0 pr0 = Go pr1 ws1
        \<and> epollRings pr1 \<noteq> [] \<and> last (epollRings pr1) < length (rings pr1)
        \<and> readRecordFromRing order (rings pr1 ! last (epollRings pr1)) = ((rcd, Some err), ring')
        \<and> IsUnknownEvent err \<longrightarrow>
      Read order ws pr
        = (Returns rcd (Some err),
           pr1\<lparr>rings := (rings pr1)[last (epollRings pr1) := ring']\<rparr>, ws1))
   \<and> (epollFd pr \<noteq> -1 \<and> epollRings pr \<noteq> [] \<and> last (epollRings pr) < length (rings pr)
        \<and> readRecordFromRing order (rings pr ! last (epollRings pr)) = ((rcd, Some err), ring')
        \<and> IsUnknownEvent err \<longrightarrow>
      Read order ws pr
        = (Returns rcd (Some err), pr\<lparr>rings := (rings pr)[last (epollRings pr) := ring']\<rparr>, ws))
   \<and> (readRecordFromRing order ring = ((rcd, Some err), ring') \<and> IsUnknownEvent err \<longrightarrow>
        rcd = Record_zero \<and> 8 \<le> length (unread ring)
        \<and> ring' = ring\<lparr>unread := drop 8 (unread ring), tail := tail ring + 8,
                         dataTail := tail ring + 8\<rparr>)"
proof (intro conjI impI)
  assume a: "Read order ws pr = (Returns rcd (Some err), pr', ws') \<and> IsUnknownEvent err"
  then have "Read_loop order ws pr = (Returns rcd (Some err), pr', ws')"
    by (auto simp add: Read_def IsUnknownEvent_simps split: if_splits)
  with a obtain n ws0 pr0 pr1 where l: "loopHead order n ws pr = Some (ws0, pr0)"
    and g: "waitPhase ws0 pr0 = Go pr1 ws'"
    and t: "readTop order pr1 = Some ((rcd, Some err), pr')"
    using Read_loop_unknown_head by blast
  from readTop_Some [OF t] obtain ring' where
    "epollRings pr1 \<noteq> []" "last (epollRings pr1) < length (rings pr1)"
    "readRecordFromRing order (rings pr1 ! last (epollRings pr1)) = ((rcd, Some err), ring')"
    "pr' = pr1\<lparr>rings := (rings pr1)[last (epollRings pr1) := ring']\<rparr>"
    by blast
  moreover from this have "epollRings pr' = epollRings pr1" by simp
  ultimately show "\<exists>n ws0 pr0 pr1 ring'.
         loopHead order n ws pr = Some (ws0, pr0) \<and> waitPhase ws0 pr0 = Go pr1 ws'
         \<and> epollRings pr1 \<noteq> [] \<and> last (epollRings pr1) < length (rings pr1)
         \<and> readRecordFromRing order (rings pr1 ! last (epollRings pr1)) = ((rcd, Some err), ring')
         \<and> pr' = pr1\<lparr>rings := (rings pr1)[last (epollRings pr1) := ring']\<rparr>
         \<and> epollRings pr' = epollRings pr1"
    using l g by blast
next
  assume a: "Read order ws pr = (Returns rcd (Some err), pr', ws') \<and> IsUnknownEvent err"
  then have "Read_loop order ws pr = (Returns rcd (Some err), pr', ws')"
    by (auto simp add: Read_def IsUnknownEvent_simps split: if_splits)
  with a obtain pr1 where t: "readTop order pr1 = Some ((rcd, Some err), pr')"
    using Read_loop_unknown_head by blast
  from readTop_Some [OF t] have top: "epollRings pr' \<noteq> [] \<and> last (epollRings pr') < length (rings pr')"
    by auto
  from top show "epollRings pr' \<noteq> []" by simp
  from top show "last (epollRings pr') < length (rings pr')" by simp
  from top show "waitPhase ws2 pr' = Go pr' ws2" by (simp add: waitPhase_def)
next
  assume b: "epollFd pr \<noteq> -1 \<and> loopHead order n ws pr = Some (ws0, pr0)
        \<and> waitPhase ws0 pr0 = Go pr1 ws1
        \<and> epollRings pr1 \<noteq> [] \<and> last (epollRings pr1) < length (rings pr1)
        \<and> readRecordFromRing order (rings pr1 ! last (epollRings pr1)) = ((rcd, Some err), ring')
        \<and> IsUnknownEvent err"
  then have l: "loopHead order n ws pr = Some (ws0, pr0)" by simp
  from b have ne: "err \<noteq> errEOR" by (auto simp add: IsUnknownEvent_simps)
  from b have t: "readTop order pr1
      = Some ((rcd, Some err), pr1\<lparr>rings := (rings pr1)[last (epollRings pr1) := ring']\<rparr>)"
    by (simp add: readTop_def)
  from b t ne have "Read_loop order ws0 pr0
      = (Returns rcd (Some err), pr1\<lparr>rings := (rings pr1)[last (epollRings pr1) := ring']\<rparr>, ws1)"
    by (simp add: Read_loop.simps [of order ws0 pr0])
  with loopHead_Read_loop [OF l] b
  show "Read order ws pr
        = (Returns rcd (Some err),
           pr1\<lparr>rings := (rings pr1)[last (epollRings pr1) := ring']\<rparr>, ws1)"
    by (simp add: Read_def)
next
  assume b: "epollFd pr \<noteq> -1 \<and> epollRings pr \<noteq> [] \<and> last (epollRings pr) < length (rings pr)
        \<and> readRecordFromRing order (rings pr ! last (epollRings pr)) = ((rcd, Some err), ring')
        \<and> IsUnknownEvent err"
  then have ne: "err \<noteq> errEOR" by (auto simp add: IsUnknownEvent_simps)
  from b have w: "waitPhase ws pr = Go pr ws" by (simp add: waitPhase_def)
  from b have t: "readTop order pr
      = Some ((rcd, Some err), pr\<lparr>rings := (rings pr)[last (epollRings pr) := ring']\<rparr>)"
    by (simp add: readTop_def)
  from b w t ne
  show "Read order ws pr
        = (Returns rcd (Some err), pr\<lparr>rings := (rings pr)[last (epollRings pr) := ring']\<rparr>, ws)"
    by (simp add: Read_def Read_loop.simps [of order ws pr])
next
  assume "readRecordFromRing order ring = ((rcd, Some err), ring') \<and> IsUnknownEvent err"
  then have "readRecordFromRing order ring = ((rcd, Some err), ring')" and "IsUnknownEvent err"
    by simp_all
  then have c: "rcd = Record_zero \<and> 8 \<le> length (unread ring)
        \<and> ring' = ring\<lparr>unread := drop 8 (unread ring), tail := tail ring + 8,
                         dataTail := tail ring + 8\<rparr>"
    by (rule readRecordFromRing_unknown)
  from c show "rcd = Record_zero" by simp
  from c show "8 \<le> length (unread ring)" by simp
  from c show "ring' = ring\<lparr>unread := drop 8 (unread ring), tail := tail ring + 8,
                         dataTail := tail ring + 8\<rparr>" by simp
qed

theorem Read_unknown_event_keeps_ring_witness:
  "Read LittleEndian [] reader2_unknown
     = (Returns Record_zero (Some (unknownEventError 5)),
        reader2_unknown\<lparr>rings := (rings reader2_unknown)
           [1 := \<lparr>cpu = 1, fd = 11, unread = [], produced = [], tail = 8, dataTail = 8\<rparr>]\<rparr>, [])
   \<and> Read LittleEndian [wait_EINTR, wait_unknown] reader2_drained
       = (Returns Record_zero (Some (unknownEventError 5)),
          reader2_woken\<lparr>rings := (rings reader2_woken)
             [1 := \<lparr>cpu = 1, fd = 11, unread = [], produced = [], tail = 8, dataTail = 8\<rparr>]\<rparr>, [])
   \<and> epollRings (fst (snd (Read LittleEndian [wait_EINTR, wait_unknown] reader2_drained))) = [1]
   \<and> waitPhase [wait_sample]
         (fst (snd (Read LittleEndian [wait_EINTR, wait_unknown] reader2_drained)))
       = Go (fst (snd (Read LittleEndian [wait_EINTR, wait_unknown] reader2_drained))) [wait_sample]
   \<and> IsUnknownEvent (unknownEventError 5)"
proof -
  let ?ring' = "\<lparr>cpu = 1, fd = 11, unread = [], produced = [], tail = 8, dataTail = 8\<rparr>"
  have t: "Uint32 LittleEndian [5, 0, 0, 0] = 5"
    by (simp add: Uint32_def le_Uint32_def)
  have u: "IsUnknownEvent (unknownEventError 5)"
    by (simp add: IsUnknownEvent_def)
  have r: "readRecordFromRing LittleEndian (rings reader2_unknown ! last (epollRings reader2_unknown))
             = ((Record_zero, Some (unknownEventError 5)), ?ring')"
    by (simp add: reader2_unknown_def reader2_def readRecordFromRing_def readRecord_def
          binary_Read_header_def ReadFull_def t perfRecordLost_def perfRecordSample_def
          writeTail_def)
  have h: "epollFd reader2_unknown \<noteq> -1 \<and> epollRings reader2_unknown \<noteq> []
           \<and> last (epollRings reader2_unknown) < length (rings reader2_unknown)"
    by (simp add: reader2_unknown_def reader2_def)
  have l: "last (epollRings reader2_unknown) = 1"
    by (simp add: reader2_unknown_def)
  from Read_unknown_event_keeps_ring [where order = LittleEndian and pr = reader2_unknown
         and rcd = Record_zero and err = "unknownEventError 5" and ring' = ?ring' and ws = "[]",
         THEN conjunct2, THEN conjunct2, THEN conjunct2, THEN conjunct1]
       h r u
  have A: "Read LittleEndian [] reader2_unknown
     = (Returns Record_zero (Some (unknownEventError 5)),
        reader2_unknown\<lparr>rings := (rings reader2_unknown)[1 := ?ring']\<rparr>, [])"
    by (simp add: l)
  have n1: "nextHead LittleEndian [wait_EINTR, wait_unknown] reader2_drained
              = Some ([wait_EINTR, wait_unknown], reader2)"
    by (rule nextHead_drained)
  have n2: "nextHead LittleEndian [wait_EINTR, wait_unknown] reader2 = Some ([wait_unknown], reader2)"
    by (simp add: nextHead_def waitPhase_interrupted interrupted_fixtures kernelWrites_nothing
          reader2_def)
  have lh: "loopHead LittleEndian (Suc (Suc 0)) [wait_EINTR, wait_unknown] reader2_drained
              = Some ([wait_unknown], reader2)"
    by (simp add: n1 n2)
  have r2: "readRecordFromRing LittleEndian (rings reader2_woken ! last (epollRings reader2_woken))
             = ((Record_zero, Some (unknownEventError 5)), ?ring')"
    by (simp add: reader2_woken_def reader2_def readRecordFromRing_def readRecord_def
          binary_Read_header_def ReadFull_def t perfRecordLost_def perfRecordSample_def
          writeTail_def)
  have h2: "epollFd reader2_drained \<noteq> -1 \<and> epollRings reader2_woken \<noteq> []
           \<and> last (epollRings reader2_woken) < length (rings reader2_woken)"
    by (simp add: reader2_drained_def reader2_woken_def reader2_def)
  have l2: "last (epollRings reader2_woken) = 1"
    by (simp add: reader2_woken_def)
  from Read_unknown_event_keeps_ring [where order = LittleEndian and pr = reader2_drained
         and ws = "[wait_EINTR, wait_unknown]" and n = "Suc (Suc 0)" and ?ws0.0 = "[wait_unknown]"
         and ?pr0.0 = reader2 and ?pr1.0 = reader2_woken and ?ws1.0 = "[]"
         and rcd = Record_zero and err = "unknownEventError 5" and ring' = ?ring',
         THEN conjunct2, THEN conjunct2, THEN conjunct1]
       lh waitPhase_unknown h2 r2 u
  have B: "Read LittleEndian [wait_EINTR, wait_unknown] reader2_drained
       = (Returns Record_zero (Some (unknownEventError 5)),
          reader2_woken\<lparr>rings := (rings reader2_woken)[1 := ?ring']\<rparr>, [])"
    by (simp add: l2)
  from Read_unknown_event_keeps_ring [where order = LittleEndian and pr = reader2_drained
         and ws = "[wait_EINTR, wait_unknown]" and rcd = Record_zero
         and err = "unknownEventError 5" and ws' = "[]" and ?ws2.0 = "[wait_sample]"
         and pr' = "reader2_woken\<lparr>rings := (rings reader2_woken)[1 := ?ring']\<rparr>",
         THEN conjunct2, THEN conjunct1]
       B u
  have C: "waitPhase [wait_sample] (reader2_woken\<lparr>rings := (rings reader2_woken)[1 := ?ring']\<rparr>)
             = Go (reader2_woken\<lparr>rings := (rings reader2_woken)[1 := ?ring']\<rparr>) [wait_sample]"
    by simp
  from A B C u show ?thesis by (simp add: reader2_woken_def)
qed

subsection \<open>\<open>Resume\<close>\<close>

lemma key32_inj:
  "i < 2 ^ 32 \<Longrightarrow> j < 2 ^ 32 \<Longrightarrow> ((of_nat i :: 32 word) = of_nat j) = (i = j)"
  by (simp add: word_of_nat_eq_iff take_bit_nat_eq_self)

lemma putUpTo_refl: "k \<le> i \<Longrightarrow> putUpTo fds i k kern kern"
  unfolding putUpTo_def by auto

lemma putUpTo_step:
  assumes "i < k" "k \<le> 2 ^ 32"
    and "putUpTo fds (Suc i) k (kern\<lparr>table := (table kern)(of_nat i \<mapsto> word_of_int (fds ! i))\<rparr>) kern'"
  shows "putUpTo fds i k kern kern'"
proof -
  have neq: "\<And>j. Suc i \<le> j \<Longrightarrow> j < k \<Longrightarrow> (of_nat i :: 32 word) \<noteq> of_nat j"
    using assms(1,2) by (simp add: key32_inj)
  show ?thesis
    unfolding putUpTo_def
  proof (intro conjI allI impI)
    show "trace kern' = trace kern" using assms(3) by (simp add: putUpTo_def)
  next
    fix j assume j: "i \<le> j \<and> j < k"
    show "table kern' (of_nat j) = Some (word_of_int (fds ! j))"
    proof (cases "j = i")
      case True
      have "table kern' (of_nat i) = table (kern\<lparr>table := (table kern)(of_nat i \<mapsto> word_of_int (fds ! i))\<rparr>) (of_nat i)"
        using assms(3) neq unfolding putUpTo_def by blast
      with True show ?thesis by simp
    next
      case False
      with j have "Suc i \<le> j \<and> j < k" by simp
      with assms(3) show ?thesis unfolding putUpTo_def by blast
    qed
  next
    fix x :: "32 word" assume x: "\<forall>j. i \<le> j \<and> j < k \<longrightarrow> x \<noteq> of_nat j"
    then have "\<forall>j. Suc i \<le> j \<and> j < k \<longrightarrow> x \<noteq> of_nat j" by simp
    with assms(3) have "table kern' x = table (kern\<lparr>table := (table kern)(of_nat i \<mapsto> word_of_int (fds ! i))\<rparr>) x"
      unfolding putUpTo_def by blast
    moreover from x assms(1) have "x \<noteq> of_nat i" by simp
    ultimately show "table kern' x = table kern x" by simp
  qed
qed

lemma Resume_loop_fails_at:
  assumes "i \<le> k" "k < length fds" "length fds \<le> 2 ^ 32"
    and "\<forall>j. i \<le> j \<and> j < k \<longrightarrow> env_Put en (of_nat j) (word_of_int (fds ! j)) = None"
    and "env_Put en (of_nat k) (word_of_int (fds ! k)) = Some e"
  shows "fst (Resume_loop en fds i kern)
           = Some (Wrapped e ''could't put event fd %d for CPU %d''
                     [uint (word_of_int (fds ! k) :: 32 word), int k])
         \<and> putUpTo fds i k kern (snd (Resume_loop en fds i kern))"
  using assms
proof (induction en fds i kern rule: Resume_loop.induct)
  case (1 en fds i kern)
  show ?case
  proof (cases "i = k")
    case True
    with "1.prems"(2,5) have "Resume_loop en fds i kern
           = (Some (Wrapped e ''could't put event fd %d for CPU %d''
                      [uint (word_of_int (fds ! k) :: 32 word), int k]), kern)"
      by (subst Resume_loop.simps) (simp add: MapPut_def Wrapf_def)
    moreover from True have "putUpTo fds i k kern kern" by (simp add: putUpTo_refl)
    ultimately show ?thesis by simp
  next
    case False
    with "1.prems"(1,2) have ik: "i < k" and ilen: "i < length fds" by simp_all
    let ?kern1 = "kern\<lparr>table := (table kern)(of_nat i \<mapsto> word_of_int (fds ! i))\<rparr>"
    from "1.prems"(4) ik have "env_Put en (of_nat i) (word_of_int (fds ! i)) = None"
      by simp
    then have put: "MapPut en (of_nat i) (word_of_int (fds ! i)) kern = (None, ?kern1)"
      by (simp add: MapPut_def)
    from ik have a: "Suc i \<le> k" by simp
    from "1.prems"(4)
    have b: "\<forall>j. Suc i \<le> j \<and> j < k \<longrightarrow> env_Put en (of_nat j) (word_of_int (fds ! j)) = None"
      by simp
    note IH = "1.IH" [OF ilen refl put [symmetric] refl a "1.prems"(2) "1.prems"(3) b "1.prems"(5)]
    from "1.prems"(2,3) have "k \<le> 2 ^ 32" by simp
    with ik IH have "putUpTo fds i k kern (snd (Resume_loop en fds (Suc i) ?kern1))"
      by (simp add: putUpTo_step)
    moreover have "Resume_loop en fds i kern = Resume_loop en fds (Suc i) ?kern1"
      using ilen put by (subst Resume_loop.simps) simp
    ultimately show ?thesis using IH by simp
  qed
qed

lemma Resume_loop_succeeds:
  assumes "length fds \<le> 2 ^ 32"
    and "\<forall>j. i \<le> j \<and> j < length fds \<longrightarrow> env_Put en (of_nat j) (word_of_int (fds ! j)) = None"
  shows "fst (Resume_loop en fds i kern) = None
         \<and> putUpTo fds i (length fds) kern (snd (Resume_loop en fds i kern))"
  using assms
proof (induction en fds i kern rule: Resume_loop.induct)
  case (1 en fds i kern)
  show ?case
  proof (cases "i < length fds")
    case False
    then have "Resume_loop en fds i kern = (None, kern)"
      by (subst Resume_loop.simps) simp
    moreover from False have "putUpTo fds i (length fds) kern kern" by (simp add: putUpTo_refl)
    ultimately show ?thesis by simp
  next
    case True
    let ?kern1 = "kern\<lparr>table := (table kern)(of_nat i \<mapsto> word_of_int (fds ! i))\<rparr>"
    from "1.prems"(2) True have "env_Put en (of_nat i) (word_of_int (fds ! i)) = None"
      by simp
    then have put: "MapPut en (of_nat i) (word_of_int (fds ! i)) kern = (None, ?kern1)"
      by (simp add: MapPut_def)
    from "1.prems"(2)
    have b: "\<forall>j. Suc i \<le> j \<and> j < length fds
                \<longrightarrow> env_Put en (of_nat j) (word_of_int (fds ! j)) = None"
      by simp
    note IH = "1.IH" [OF True refl put [symmetric] refl "1.prems"(1) b]
    from True "1.prems"(1) IH
    have "putUpTo fds i (length fds) kern (snd (Resume_loop en fds (Suc i) ?kern1))"
      by (simp add: putUpTo_step)
    moreover have "Resume_loop en fds i kern = Resume_loop en fds (Suc i) ?kern1"
      using True put by (subst Resume_loop.simps) simp
    ultimately show ?thesis using IH by simp
  qed
qed

lemma putUpTo_same_result:
  assumes "putUpTo fds 0 k kern kern1" "k \<le> n"
    and "putUpTo fds 0 n kern kern2" "putUpTo fds 0 n kern1 kern3"
  shows "kern3 = kern2"
proof -
  have "table kern3 x = table kern2 x" for x
  proof (cases "\<exists>j<n. x = of_nat j")
    case True
    with assms(3,4) show ?thesis unfolding putUpTo_def by auto
  next
    case False
    then have n: "\<forall>j. 0 \<le> j \<and> j < n \<longrightarrow> x \<noteq> of_nat j" by auto
    with assms(2) have k: "\<forall>j. 0 \<le> j \<and> j < k \<longrightarrow> x \<noteq> of_nat j" by auto
    from n assms(4) have "table kern3 x = table kern1 x" unfolding putUpTo_def by blast
    also from k assms(1) have "\<dots> = table kern x" unfolding putUpTo_def by blast
    also from n assms(3) have "\<dots> = table kern2 x" unfolding putUpTo_def by metis
    finally show ?thesis .
  qed
  then have "table kern3 = table kern2" by (rule ext)
  moreover have "trace kern3 = trace kern2" using assms unfolding putUpTo_def by simp
  ultimately show ?thesis by simp
qed

text \<open>
  C8. Let \<open>Resume\<close> fail at index \<open>k\<close>: the insertions before \<open>k\<close> succeed and the
  one at \<open>k\<close> fails with \<open>e\<close>. Then \<open>Resume\<close> returns \<open>e\<close> wrapped in a message
  formatted from the descriptor and from \<open>k\<close>; the table holds the descriptors of all
  indices below \<open>k\<close> and is unchanged everywhere else (nothing is rolled back, no index
  after \<open>k\<close> is tried). Running \<open>Resume\<close> again, when every insertion succeeds,
  returns no error and gives the same kernel as a \<open>Resume\<close> that had not been preceded
  by the failed one: all descriptors are in the table. The reader holds at most
  \<open>2 ^ 32\<close> descriptors, as many as the \<open>uint32\<close> \<open>MaxEntries\<close> allows.
\<close>

theorem Resume_partial_failure:
  assumes "pauseFds pr = Some fds" and "length fds \<le> 2 ^ 32" and "k < length fds"
    and "\<forall>j<k. env_Put en (of_nat j) (word_of_int (fds ! j)) = None"
    and "env_Put en (of_nat k) (word_of_int (fds ! k)) = Some e"
    and "\<forall>j<length fds. env_Put en' (of_nat j) (word_of_int (fds ! j)) = None"
  shows "\<exists>kern'.
      Resume en pr kern
        = (Some (Wrapped e ''could't put event fd %d for CPU %d''
                   [uint (word_of_int (fds ! k) :: 32 word), int k]), kern')
      \<and> trace kern' = trace kern
      \<and> (\<forall>j<k. table kern' (of_nat j) = Some (word_of_int (fds ! j)))
      \<and> (\<forall>x. (\<forall>j<k. x \<noteq> of_nat j) \<longrightarrow> table kern' x = table kern x)
      \<and> fst (Resume en' pr kern') = None
      \<and> Resume en' pr kern' = Resume en' pr kern
      \<and> (\<forall>j<length fds. table (snd (Resume en' pr kern')) (of_nat j)
            = Some (word_of_int (fds ! j)))"
proof -
  have pre: "\<forall>j. 0 \<le> j \<and> j < k \<longrightarrow> env_Put en (of_nat j) (word_of_int (fds ! j)) = None"
    using assms(4) by simp
  have pre': "\<forall>j. 0 \<le> j \<and> j < length fds
                 \<longrightarrow> env_Put en' (of_nat j) (word_of_int (fds ! j)) = None"
    using assms(6) by simp
  define kern' where "kern' = snd (Resume_loop en fds 0 kern)"
  define kern2 where "kern2 = snd (Resume_loop en' fds 0 kern)"
  define kern3 where "kern3 = snd (Resume_loop en' fds 0 kern')"
  have r: "Resume_loop en fds 0 kern
           = (Some (Wrapped e ''could't put event fd %d for CPU %d''
                      [uint (word_of_int (fds ! k) :: 32 word), int k]), kern')"
    and p: "putUpTo fds 0 k kern kern'"
    using Resume_loop_fails_at [OF le0 assms(3) assms(2) pre assms(5), of kern]
    by (simp_all add: kern'_def prod_eq_iff)
  have r2: "Resume_loop en' fds 0 kern = (None, kern2)"
    and p2: "putUpTo fds 0 (length fds) kern kern2"
    using Resume_loop_succeeds [OF assms(2) pre', of kern]
    by (simp_all add: kern2_def prod_eq_iff)
  have r3: "Resume_loop en' fds 0 kern' = (None, kern3)"
    and p3: "putUpTo fds 0 (length fds) kern' kern3"
    using Resume_loop_succeeds [OF assms(2) pre', of kern']
    by (simp_all add: kern3_def prod_eq_iff)
  from assms(3) have "k \<le> length fds" by simp
  have same: "kern3 = kern2"
    by (rule putUpTo_same_result [OF p \<open>k \<le> length fds\<close> p2 p3])
  from p3 have ins: "\<forall>j<length fds. table kern3 (of_nat j) = Some (word_of_int (fds ! j))"
    by (simp add: putUpTo_def)
  from p have t1: "trace kern' = trace kern"
    and t2: "\<forall>j<k. table kern' (of_nat j) = Some (word_of_int (fds ! j))"
    and t3: "\<forall>x. (\<forall>j<k. x \<noteq> of_nat j) \<longrightarrow> table kern' x = table kern x"
    by (simp_all add: putUpTo_def)
  have R1: "Resume en pr kern = (Some (Wrapped e ''could't put event fd %d for CPU %d''
                      [uint (word_of_int (fds ! k) :: 32 word), int k]), kern')"
    using r assms(1) by (simp add: Resume_def)
  have R2: "Resume en' pr kern = (None, kern2)"
    using r2 assms(1) by (simp add: Resume_def)
  have R3: "Resume en' pr kern' = (None, kern2)"
    using r3 same assms(1) by (simp add: Resume_def)
  from ins same have ins2: "\<forall>j<length fds. table kern2 (of_nat j) = Some (word_of_int (fds ! j))"
    by simp
  have "Resume en pr kern
        = (Some (Wrapped e ''could't put event fd %d for CPU %d''
                   [uint (word_of_int (fds ! k) :: 32 word), int k]), kern')
      \<and> trace kern' = trace kern
      \<and> (\<forall>j<k. table kern' (of_nat j) = Some (word_of_int (fds ! j)))
      \<and> (\<forall>x. (\<forall>j<k. x \<noteq> of_nat j) \<longrightarrow> table kern' x = table kern x)
      \<and> fst (Resume en' pr kern') = None
      \<and> Resume en' pr kern' = Resume en' pr kern
      \<and> (\<forall>j<length fds. table (snd (Resume en' pr kern')) (of_nat j)
            = Some (word_of_int (fds ! j)))"
    unfolding R1 R2 R3 fst_conv snd_conv using t1 t2 t3 ins2 by (intro conjI refl)
  then show ?thesis by (rule exI)
qed

theorem Resume_partial_failure_witness:
  "fst (Resume env_put1_fails reader2 kern_empty)
     = Some (Wrapped (Errno 9) ''could't put event fd %d for CPU %d'' [11, 1])
   \<and> table (snd (Resume env_put1_fails reader2 kern_empty)) 0 = Some 10
   \<and> table (snd (Resume env_put1_fails reader2 kern_empty)) 1 = None
   \<and> fst (Resume env_ok reader2 (snd (Resume env_put1_fails reader2 kern_empty))) = None
   \<and> table (snd (Resume env_ok reader2 (snd (Resume env_put1_fails reader2 kern_empty)))) 1
       = Some 11"
proof -
  have a: "pauseFds reader2 = Some [10, 11]" by (simp add: reader2_def)
  have b: "\<forall>j<1. env_Put env_put1_fails (of_nat j) (word_of_int ([10, 11] ! j)) = None"
    by (simp add: env_put1_fails_def env_ok_def)
  have c: "env_Put env_put1_fails (of_nat 1) (word_of_int ([10, 11] ! 1)) = Some (Errno 9)"
    by (simp add: env_put1_fails_def env_ok_def)
  have d: "\<forall>j<length [10, 11 :: int]. env_Put env_ok (of_nat j) (word_of_int ([10, 11] ! j)) = None"
    by (simp add: env_ok_def)
  have e: "\<forall>x::32 word. (\<forall>j<1::nat. x \<noteq> of_nat j) = (x \<noteq> 0)" by auto
  from Resume_partial_failure [OF a _ _ b c d, of kern_empty]
  obtain kern' where
    "Resume env_put1_fails reader2 kern_empty
        = (Some (Wrapped (Errno 9) ''could't put event fd %d for CPU %d''
                   [uint (word_of_int ([10, 11] ! 1) :: 32 word), int 1]), kern')"
    "\<forall>j<1. table kern' (of_nat j) = Some (word_of_int ([10, 11] ! j))"
    "\<forall>x. (\<forall>j<1. x \<noteq> of_nat j) \<longrightarrow> table kern' x = table kern_empty x"
    "fst (Resume env_ok reader2 kern') = None"
    "\<forall>j<length [10, 11 :: int]. table (snd (Resume env_ok reader2 kern')) (of_nat j)
            = Some (word_of_int ([10, 11] ! j))"
    by auto
  then show ?thesis
    by (auto simp add: kern_empty_def)
qed

subsection \<open>\<open>Close\<close>\<close>

lemma trace_fold_RingClose:
  "trace (fold (\<lambda>ring. emit (RingClose (cpu ring))) rs kern)
     = trace kern @ map (\<lambda>ring. RingClose (cpu ring)) rs"
  by (induction rs arbitrary: kern) (simp_all add: emit_def)

lemma table_fold_RingClose:
  "table (fold (\<lambda>ring. emit (RingClose (cpu ring))) rs kern) = table kern"
  by (induction rs arbitrary: kern) (simp_all add: emit_def)

lemma PutUint64_one: "PutUint64 LittleEndian 1 = [1, 0, 0, 0, 0, 0, 0, 0]"
  by (simp add: PutUint64_def le_PutUint64_def drop_bit_eq_div)

lemma Close_write_fails:
  "Close LittleEndian env_write_fails reader2 kern_empty
     = (Some (Wrapped (Wrapped (Errno 11) ''can't write event fd'' []) ''close PerfReader'' []),
        reader2_guarded, kern_after_write)"
  by (simp add: Close_def env_write_fails_def env_ok_def reader2_def reader2_guarded_def
        kern_empty_def kern_after_write_def emit_def Wrap_def Wrapf_def PutUint64_one)

lemma Close_guarded:
  "Close LittleEndian env_ok reader2_guarded kern_after_write = (None, reader2_guarded, kern_after_write)"
  by (simp add: Close_def reader2_guarded_def Wrap_def Wrapf_def)

lemma Read_guarded_sample:
  "fst (Read LittleEndian [wait_sample] reader2_guarded)
     = Returns \<lparr>CPU = 0, RawSample = Some [7, 7], LostSamples = 0\<rparr> None"
proof -
  have t: "Uint32 LittleEndian [9, 0, 0, 0] = 9" "Uint32 LittleEndian [2, 0, 0, 0] = 2"
    by (simp_all add: Uint32_def le_Uint32_def)
  let ?ring0 = "\<lparr>cpu = 0, fd = 10, unread = [9, 0, 0, 0, 0, 0, 14, 0, 2, 0, 0, 0, 7, 7],
                  produced = [], tail = 0, dataTail = 0\<rparr>"
  let ?ring1 = "\<lparr>cpu = 1, fd = 11, unread = [], produced = [], tail = 0, dataTail = 0\<rparr>"
  let ?pr1 = "reader2_guarded\<lparr>rings := [?ring0, ?ring1],
                epollEvents := [\<lparr>Events = EPOLLIN, Fd = 10, Pad = 0\<rparr>, zeroEvent, zeroEvent],
                epollRings := [0]\<rparr>"
  have k: "kernelWrites (wrote wait_sample) (rings reader2_guarded)
             = [\<lparr>cpu = 0, fd = 10, unread = [], produced = [9, 0, 0, 0, 0, 0, 14, 0, 2, 0, 0, 0, 7, 7],
                  tail = 0, dataTail = 0\<rparr>, ?ring1]"
    by (simp add: kernelWrites_def wait_sample_def reader2_guarded_def reader2_def upt_rec)
  have w: "waitPhase [wait_sample] reader2_guarded = Go ?pr1 []"
    by (simp add: waitPhase_def k EpollWait_def)
       (simp add: wait_sample_def reader2_guarded_def reader2_def cpuForEvent_def loadHead_def)
  have r: "fst (the (readTop LittleEndian ?pr1))
            = (\<lparr>CPU = 0, RawSample = Some [7, 7], LostSamples = 0\<rparr>, None)
           \<and> readTop LittleEndian ?pr1 \<noteq> None"
    by (simp add: readTop_def readRecordFromRing_def readRecord_def binary_Read_header_def
          ReadFull_def t perfRecordLost_def perfRecordSample_def readRawSample_def
          Wrap_def Wrapf_def Let_def split: prod.splits)
  then obtain pr2 where "readTop LittleEndian ?pr1
       = Some ((\<lparr>CPU = 0, RawSample = Some [7, 7], LostSamples = 0\<rparr>, None), pr2)"
    by (cases "readTop LittleEndian ?pr1") (auto simp add: prod_eq_iff)
  with w show ?thesis
    by (simp add: Read_def Read_loop.simps [of LittleEndian "[wait_sample]" reader2_guarded])
       (simp add: reader2_guarded_def reader2_def)
qed

lemma Pause_guarded: "fst (Pause env_ok reader2_guarded kern_after_write) = None"
  by (simp add: Pause_def reader2_guarded_def reader2_def Pause_loop.simps [of _ _ 0]
        Pause_loop.simps [of _ _ "Suc 0"] Pause_loop.simps [of _ _ "Suc (Suc 0)"]
        MapDelete_def env_ok_def kern_after_write_def IsNotExist_def)

lemma Resume_guarded: "fst (Resume env_ok reader2_guarded kern_after_write) = None"
  by (simp add: Resume_def reader2_guarded_def reader2_def Resume_loop.simps [of _ _ 0]
        Resume_loop.simps [of _ _ "Suc 0"] Resume_loop.simps [of _ _ "Suc (Suc 0)"]
        MapPut_def env_ok_def)

lemma Close_write_EBADF:
  "Close LittleEndian env_write_EBADF reader2 kern_empty
     = (Some (Wrapped (Wrapped (Errno 9) ''can't write event fd'' []) ''close PerfReader'' []),
        reader2_guarded, kern_after_write)"
  by (simp add: Close_def env_write_EBADF_def env_ok_def reader2_def reader2_guarded_def
        kern_empty_def kern_after_write_def emit_def Wrap_def Wrapf_def PutUint64_one)

lemma closeFunc_closeOnce:
  "closeFunc order en pr kern = (e, prb, kb) \<Longrightarrow> closeOnce prb = closeOnce pr"
  by (auto simp add: closeFunc_def Let_def split: option.splits)

lemma Close_closeFunc:
  "Close order en pr kern =
     (if closeOnce pr then (None, pr, kern)
      else case closeFunc order en pr kern of (e, prb, kb) \<Rightarrow>
             (Wrap e ''close PerfReader'', prb\<lparr>closeOnce := True\<rparr>, kb))"
  by (auto simp add: Close_def closeFunc_def Let_def Wrap_def Wrapf_def split: option.splits)

lemma closeInv_start: "closeInv order en pr kern (closeStart pr kern)"
  by (simp add: closeInv_def closeStart_def split: prod.splits)

lemma closeInv_step:
  assumes "closeInv order en pr0 kern0 cfg"
  shows "closeInv order en pr0 kern0 (closeStep order en t cfg)"
proof -
  obtain e prb kb where f: "closeFunc order en pr0 kern0 = (e, prb, kb)"
    by (cases "closeFunc order en pr0 kern0") auto
  have o: "closeOnce prb = closeOnce pr0" using f by (rule closeFunc_closeOnce)
  have w: "Wrap None ''close PerfReader'' = None" by (simp add: Wrap_def Wrapf_def)
  show ?thesis
  proof (cases "closeOnce pr0")
    case True
    with assms f show ?thesis
      by (cases t)
         (auto simp add: closeInv_def closeStep_def getCtx_def setCtx_def w)
  next
    case False
    with assms f o show ?thesis
      by (cases t; cases "ctxA cfg"; cases "ctxB cfg")
         (auto simp add: closeInv_def closeStep_def getCtx_def setCtx_def winner_def w)
  qed
qed

lemma closeInv_fold:
  "closeInv order en pr0 kern0 cfg \<Longrightarrow>
   closeInv order en pr0 kern0 (fold (closeStep order en) sched cfg)"
  by (induction sched arbitrary: cfg) (simp_all add: closeInv_step)

lemma closeInv_run: "closeInv order en pr kern (closeRun order en sched pr kern)"
  unfolding closeRun_def by (rule closeInv_fold) (rule closeInv_start)

lemma closeInv_final:
  assumes "closeInv order en pr kern cfg"
    and "ctxA cfg = Returned rA" and "ctxB cfg = Returned rB"
  shows "(cReader cfg, cKernel cfg) = snd (Close order en pr kern)
         \<and> ((rA = fst (Close order en pr kern) \<and> rB = None)
             \<or> (rA = None \<and> rB = fst (Close order en pr kern)))"
  using assms
  by (cases "closeFunc order en pr kern")
     (auto simp add: closeInv_def winner_def Close_closeFunc split: if_splits)

lemma closeInv_progress_ctx:
  assumes "closeInv order en pr kern cfg"
  shows "(\<exists>rA rB. ctxA cfg = Returned rA \<and> ctxB cfg = Returned rB)
         \<or> ctxA (closeStep order en CtxA cfg) \<noteq> ctxA cfg
         \<or> ctxB (closeStep order en CtxB cfg) \<noteq> ctxB cfg"
proof -
  obtain e prb kb where f: "closeFunc order en pr kern = (e, prb, kb)"
    by (cases "closeFunc order en pr kern") auto
  have o: "closeOnce prb = closeOnce pr" using f by (rule closeFunc_closeOnce)
  from assms f o show ?thesis
    by (cases "ctxA cfg"; cases "ctxB cfg")
       (auto simp add: closeInv_def winner_def closeStep_def getCtx_def setCtx_def
          split: if_splits prod.splits)
qed

lemma closeInv_progress:
  assumes "closeInv order en pr kern cfg"
  shows "(\<exists>rA rB. ctxA cfg = Returned rA \<and> ctxB cfg = Returned rB)
         \<or> closeStep order en CtxA cfg \<noteq> cfg \<or> closeStep order en CtxB cfg \<noteq> cfg"
  using closeInv_progress_ctx [OF assms] by auto

lemma closeOnce_outward:
  "pr\<lparr>closeOnce := b, rings := R\<rparr> = pr\<lparr>rings := R, closeOnce := b\<rparr>"
  "pr\<lparr>closeOnce := b, epollRings := X\<rparr> = pr\<lparr>epollRings := X, closeOnce := b\<rparr>"
  "pr\<lparr>closeOnce := b, epollEvents := E\<rparr> = pr\<lparr>epollEvents := E, closeOnce := b\<rparr>"
  by (cases pr, simp)+

lemma pushEvents_closeOnce:
  "pushEvents evs (pr\<lparr>closeOnce := b\<rparr>)
     = (fst (pushEvents evs pr), (snd (pushEvents evs pr))\<lparr>closeOnce := b\<rparr>)"
  by (induction evs pr rule: pushEvents.induct) (simp_all add: Let_def closeOnce_outward)

lemma waitPhase_closeOnce:
  "waitPhase ws (pr\<lparr>closeOnce := b\<rparr>)
     = (case waitPhase ws pr of
          Retry ws' pr' \<Rightarrow> Retry ws' (pr'\<lparr>closeOnce := b\<rparr>)
        | Stop r pr' ws' \<Rightarrow> Stop r (pr'\<lparr>closeOnce := b\<rparr>) ws'
        | Go pr' ws' \<Rightarrow> Go (pr'\<lparr>closeOnce := b\<rparr>) ws')"
  by (auto simp add: waitPhase_def Let_def pushEvents_closeOnce closeOnce_outward
      split: list.splits prod.splits option.splits)

lemma readTop_closeOnce:
  "readTop order (pr\<lparr>closeOnce := b\<rparr>)
     = (case readTop order pr of
          None \<Rightarrow> None
        | Some (res, pr') \<Rightarrow> Some (res, pr'\<lparr>closeOnce := b\<rparr>))"
  by (auto simp add: readTop_def Let_def closeOnce_outward split: prod.splits)

lemma Read_loop_closeOnce:
  "Read_loop order ws (pr\<lparr>closeOnce := b\<rparr>)
     = (case Read_loop order ws pr of (r, pr', ws') \<Rightarrow> (r, pr'\<lparr>closeOnce := b\<rparr>, ws'))"
proof (induction order ws pr rule: Read_loop.induct)
  case (1 order ws pr)
  note unfold = Read_loop.simps [of order ws pr]
    Read_loop.simps [of order ws "pr\<lparr>closeOnce := b\<rparr>"] waitPhase_closeOnce readTop_closeOnce
    closeOnce_outward
  show ?case
  proof (cases "waitPhase ws pr")
    case (Retry ws1 pr1)
    with "1.IH"(1) [OF Retry] show ?thesis by (simp add: unfold)
  next
    case (Stop r pr1 ws1)
    then show ?thesis by (simp add: unfold)
  next
    case (Go pr1 ws1)
    show ?thesis
    proof (cases "readTop order pr1")
      case None
      with Go show ?thesis by (simp add: unfold)
    next
      case (Some x)
      then obtain rcd1 err1 pr2 where x: "readTop order pr1 = Some ((rcd1, err1), pr2)"
        by (cases x) auto
      show ?thesis
      proof (cases "err1 = Some errEOR")
        case True
        with "1.IH"(2) [OF Go x refl refl True] Go x show ?thesis by (simp add: unfold)
      next
        case False
        with Go x show ?thesis by (simp add: unfold)
      qed
    qed
  qed
qed

lemma Read_closeOnce:
  "Read order ws (pr\<lparr>closeOnce := b\<rparr>)
     = (case Read order ws pr of (r, pr', ws') \<Rightarrow> (r, pr'\<lparr>closeOnce := b\<rparr>, ws'))"
  by (simp add: Read_def Read_loop_closeOnce)

lemma Close_success:
  "\<not> closeOnce pr \<Longrightarrow> env_Write en (closeFd pr) = None \<Longrightarrow>
   Close order en pr kern
     = (None,
        pr\<lparr>closeOnce := True, epollFd := -1, closeFd := -1, rings := [], pauseFds := None\<rparr>,
        emit (MapClose (mapFd (array pr)))
          (fold (\<lambda>ring. emit (RingClose (cpu ring))) (rings pr)
            (emit (UnixClose (closeFd pr))
              (emit (UnixClose (epollFd pr))
                (emit (UnixWrite (closeFd pr) (PutUint64 order 1)) kern)))))"
  by (simp add: Close_def Wrap_def Wrapf_def Let_def)

lemma Close_failure:
  "\<not> closeOnce pr \<Longrightarrow> env_Write en (closeFd pr) = Some e \<Longrightarrow>
   Close order en pr kern
     = (Some (Wrapped (Wrapped e ''can't write event fd'' []) ''close PerfReader'' []),
        pr\<lparr>closeOnce := True\<rparr>,
        emit (UnixWrite (closeFd pr) (PutUint64 order 1)) kern)"
  by (simp add: Close_def Wrap_def Wrapf_def Let_def)

lemma Close_again:
  "Close order en2 (fst (snd (Close order en1 pr kern))) (snd (snd (Close order en1 pr kern)))
     = (None, fst (snd (Close order en1 pr kern)), snd (snd (Close order en1 pr kern)))"
  by (auto simp add: Close_def Wrap_def Wrapf_def Let_def split: option.splits)

lemma closeRun_interleaved:
  "ctxA (closeRun order en [CtxA, CtxB, CtxA, CtxB, CtxA, CtxA, CtxA, CtxB, CtxB] pr kern)
     = Returned (fst (Close order en pr kern))
   \<and> ctxB (closeRun order en [CtxA, CtxB, CtxA, CtxB, CtxA, CtxA, CtxA, CtxB, CtxB] pr kern)
     = Returned None"
proof (cases "closeOnce pr")
  case True
  then show ?thesis
    by (simp add: closeRun_def closeStart_def closeStep_def getCtx_def setCtx_def
          Close_closeFunc Wrap_def Wrapf_def)
next
  case False
  obtain e prb kb where f: "closeFunc order en pr kern = (e, prb, kb)"
    by (cases "closeFunc order en pr kern") auto
  with False show ?thesis
    by (simp add: closeRun_def closeStart_def closeStep_def getCtx_def setCtx_def
          Close_closeFunc Wrap_def Wrapf_def)
qed

text \<open>
  C5, as amended. After the first \<open>Close\<close> of a reader whose write to the event
  descriptor succeeds, \<open>Close\<close> has returned no error and every later \<open>Read\<close>,
  \<open>Pause\<close> and \<open>Resume\<close> returns \<open>errClosed\<close>, which \<open>IsClosed\<close> recognises, whatever
  the rings and \<open>epollRings\<close> still hold and whatever \<open>EpollWait\<close> would answer;
  a later \<open>Close\<close> changes nothing of this. When the write fails with an error \<open>e\<close>,
  the first \<open>Close\<close> returns \<open>e\<close>, wrapped twice, has made no call but the write and
  has changed nothing of the reader but the guard \<open>closeOnce\<close>; a later \<open>Close\<close>
  returns no error and does nothing; and \<open>Read\<close>, \<open>Pause\<close> and \<open>Resume\<close> do on this
  reader exactly what they do on the reader before the \<open>Close\<close>, the guard apart:
  the reader has not been closed.
\<close>

theorem Close_then_Closed:
  "(\<not> closeOnce pr \<and> env_Write en (closeFd pr) = None
      \<and> Close order en pr kern = (err, pr', kern') \<longrightarrow>
        err = None
        \<and> Read order ws pr' = (Returns Record_zero (Some errClosed), pr', ws)
        \<and> Pause en1 pr' kern1 = (Some errClosed, kern1)
        \<and> Resume en2 pr' kern2 = (Some errClosed, kern2)
        \<and> IsClosed errClosed
        \<and> Close order en3 pr' kern3 = (None, pr', kern3))
   \<and> (\<not> closeOnce pr \<and> env_Write en (closeFd pr) = Some e \<longrightarrow>
        Close order en pr kern
          = (Some (Wrapped (Wrapped e ''can't write event fd'' []) ''close PerfReader'' []),
             pr\<lparr>closeOnce := True\<rparr>,
             emit (UnixWrite (closeFd pr) (PutUint64 order 1)) kern)
        \<and> Close order en3 (pr\<lparr>closeOnce := True\<rparr>) kern3 = (None, pr\<lparr>closeOnce := True\<rparr>, kern3)
        \<and> Read order ws (pr\<lparr>closeOnce := True\<rparr>)
            = (case Read order ws pr of (r, pr1, ws1) \<Rightarrow> (r, pr1\<lparr>closeOnce := True\<rparr>, ws1))
        \<and> Pause en1 (pr\<lparr>closeOnce := True\<rparr>) kern1 = Pause en1 pr kern1
        \<and> Resume en2 (pr\<lparr>closeOnce := True\<rparr>) kern2 = Resume en2 pr kern2)"
proof (intro conjI impI)
  assume a: "\<not> closeOnce pr \<and> env_Write en (closeFd pr) = None
      \<and> Close order en pr kern = (err, pr', kern')"
  then show "err = None"
    by (auto simp add: Close_def Wrap_def Wrapf_def Let_def)
  from a show "Read order ws pr' = (Returns Record_zero (Some errClosed), pr', ws)"
    by (auto simp add: Close_def Read_def Let_def)
  from a show "Pause en1 pr' kern1 = (Some errClosed, kern1)"
    by (auto simp add: Close_def Pause_def Let_def)
  from a show "Resume en2 pr' kern2 = (Some errClosed, kern2)"
    by (auto simp add: Close_def Resume_def Let_def)
  show "IsClosed errClosed" by (simp add: IsClosed_def)
  from a show "Close order en3 pr' kern3 = (None, pr', kern3)"
    by (auto simp add: Close_def Wrap_def Wrapf_def Let_def)
next
  assume b: "\<not> closeOnce pr \<and> env_Write en (closeFd pr) = Some e"
  then show "Close order en pr kern
          = (Some (Wrapped (Wrapped e ''can't write event fd'' []) ''close PerfReader'' []),
             pr\<lparr>closeOnce := True\<rparr>,
             emit (UnixWrite (closeFd pr) (PutUint64 order 1)) kern)"
    by (simp add: Close_def Wrap_def Wrapf_def Let_def)
  show "Close order en3 (pr\<lparr>closeOnce := True\<rparr>) kern3 = (None, pr\<lparr>closeOnce := True\<rparr>, kern3)"
    by (simp add: Close_def Wrap_def Wrapf_def)
  show "Read order ws (pr\<lparr>closeOnce := True\<rparr>)
            = (case Read order ws pr of (r, pr1, ws1) \<Rightarrow> (r, pr1\<lparr>closeOnce := True\<rparr>, ws1))"
    by (rule Read_closeOnce)
  show "Pause en1 (pr\<lparr>closeOnce := True\<rparr>) kern1 = Pause en1 pr kern1"
    by (simp add: Pause_def)
  show "Resume en2 (pr\<lparr>closeOnce := True\<rparr>) kern2 = Resume en2 pr kern2"
    by (simp add: Resume_def)
qed

theorem Close_then_Closed_witness:
  "fst (Close LittleEndian env_ok reader2_unknown kern_empty) = None
   \<and> fst (Read LittleEndian [wait_sample]
            (fst (snd (Close LittleEndian env_ok reader2_unknown kern_empty))))
       = Returns Record_zero (Some errClosed)
   \<and> fst (Pause env_ok (fst (snd (Close LittleEndian env_ok reader2_unknown kern_empty))) kern_empty)
       = Some errClosed
   \<and> fst (Resume env_ok (fst (snd (Close LittleEndian env_ok reader2_unknown kern_empty))) kern_empty)
       = Some errClosed
   \<and> Close LittleEndian env_write_EBADF reader2 kern_empty
       = (Some (Wrapped (Wrapped (Errno 9) ''can't write event fd'' []) ''close PerfReader'' []),
          reader2\<lparr>closeOnce := True\<rparr>, kern_after_write)
   \<and> Pause env_ok (reader2\<lparr>closeOnce := True\<rparr>) kern_after_write
       = Pause env_ok reader2 kern_after_write
   \<and> fst (Read LittleEndian [wait_close] (reader2\<lparr>closeOnce := True\<rparr>))
       = Returns Record_zero (Some errClosed)"
proof -
  obtain err pr' kern' where c: "Close LittleEndian env_ok reader2_unknown kern_empty = (err, pr', kern')"
    by (cases "Close LittleEndian env_ok reader2_unknown kern_empty") auto
  have a: "\<not> closeOnce reader2_unknown \<and> env_Write env_ok (closeFd reader2_unknown) = None"
    by (simp add: reader2_unknown_def reader2_def env_ok_def)
  have b: "\<not> closeOnce reader2 \<and> env_Write env_write_EBADF (closeFd reader2) = Some (Errno 9)"
    by (simp add: reader2_def env_ok_def env_write_EBADF_def)
  from Close_then_Closed [where order = LittleEndian and en = env_ok and pr = reader2_unknown
         and kern = kern_empty and err = err and pr' = pr' and kern' = kern'
         and ws = "[wait_sample]" and ?en1.0 = env_ok and ?kern1.0 = kern_empty
         and ?en2.0 = env_ok and ?kern2.0 = kern_empty] a c
  have ok: "err = None
     \<and> Read LittleEndian [wait_sample] pr' = (Returns Record_zero (Some errClosed), pr', [wait_sample])
     \<and> Pause env_ok pr' kern_empty = (Some errClosed, kern_empty)
     \<and> Resume env_ok pr' kern_empty = (Some errClosed, kern_empty)"
    by simp
  from Close_then_Closed [where order = LittleEndian and en = env_write_EBADF and pr = reader2
         and kern = kern_empty and e = "Errno 9" and ws = "[wait_close]" and ?en1.0 = env_ok
         and ?kern1.0 = kern_after_write] b
  have bad: "Close LittleEndian env_write_EBADF reader2 kern_empty
       = (Some (Wrapped (Wrapped (Errno 9) ''can't write event fd'' []) ''close PerfReader'' []),
          reader2\<lparr>closeOnce := True\<rparr>,
          emit (UnixWrite (closeFd reader2) (PutUint64 LittleEndian 1)) kern_empty)
     \<and> Read LittleEndian [wait_close] (reader2\<lparr>closeOnce := True\<rparr>)
            = (case Read LittleEndian [wait_close] reader2 of
                 (r, pr1, ws1) \<Rightarrow> (r, pr1\<lparr>closeOnce := True\<rparr>, ws1))
     \<and> Pause env_ok (reader2\<lparr>closeOnce := True\<rparr>) kern_after_write
          = Pause env_ok reader2 kern_after_write"
    by simp
  have k: "emit (UnixWrite (closeFd reader2) (PutUint64 LittleEndian 1)) kern_empty = kern_after_write"
    by (simp add: emit_def PutUint64_one reader2_def kern_empty_def kern_after_write_def)
  from ok bad show ?thesis
    by (simp add: c k Read_close_event)
qed

text \<open>
  C5 as stated fails: when the write to the event descriptor fails with \<open>EBADF\<close>,
  \<open>Close\<close> returns the error with the reader still open, a second \<open>Close\<close> returns no
  error without closing anything, and after both \<open>Read\<close> returns a sample, \<open>Pause\<close>
  and \<open>Resume\<close> succeed.
\<close>

theorem Close_not_Closed_counterexample:
  "Close LittleEndian env_write_EBADF reader2 kern_empty
     = (Some (Wrapped (Wrapped (Errno 9) ''can't write event fd'' []) ''close PerfReader'' []),
        reader2_guarded, kern_after_write)
   \<and> Close LittleEndian env_ok reader2_guarded kern_after_write
       = (None, reader2_guarded, kern_after_write)
   \<and> fst (Read LittleEndian [wait_sample] reader2_guarded)
       = Returns \<lparr>CPU = 0, RawSample = Some [7, 7], LostSamples = 0\<rparr> None
   \<and> fst (Pause env_ok reader2_guarded kern_after_write) = None
   \<and> fst (Resume env_ok reader2_guarded kern_after_write) = None"
  by (simp add: Close_write_EBADF Close_guarded Read_guarded_sample Pause_guarded Resume_guarded)

text \<open>
  C6, as amended. A second \<open>Close\<close> returns no error and changes neither the reader nor
  the kernel: it makes no call at all. When the reader has not been closed before and
  the write of the first \<open>Close\<close> to the event descriptor succeeds, the first call
  returns no error as well, leaves the reader closed and the routing table as it was,
  and the calls made by the two together are one write to the event descriptor, one
  close of the epoll descriptor, of the event descriptor and of every ring, and one
  close of the map. When that write fails with an error \<open>e\<close>, the first call returns
  \<open>e\<close>, wrapped twice, and the two calls together have made the write and nothing
  else. The same holds for two calls in two execution contexts, whatever the
  scheduler does: when both have returned, the reader and the kernel are those that one
  call of \<open>Close\<close> alone leaves, one context has returned what that call returns and
  the other no error; until then one of the two contexts can always take a step, and
  there is a schedule, in which the second context waits for the guard while the
  first runs the function, that makes both return.
\<close>

theorem Close_twice:
  "(case Close order en1 pr kern of (err1, pr1, kern1) \<Rightarrow>
      Close order en2 pr1 kern1 = (None, pr1, kern1)
      \<and> (\<not> closeOnce pr \<and> env_Write en1 (closeFd pr) = None \<longrightarrow>
           err1 = None
           \<and> pr1 = pr\<lparr>closeOnce := True, epollFd := -1, closeFd := -1, rings := [],
                       pauseFds := None\<rparr>
           \<and> table kern1 = table kern
           \<and> trace kern1 = trace kern
               @ [UnixWrite (closeFd pr) (PutUint64 order 1), UnixClose (epollFd pr),
                  UnixClose (closeFd pr)]
               @ map (\<lambda>ring. RingClose (cpu ring)) (rings pr)
               @ [MapClose (mapFd (array pr))])
      \<and> (\<not> closeOnce pr \<and> env_Write en1 (closeFd pr) = Some e \<longrightarrow>
           err1 = Some (Wrapped (Wrapped e ''can't write event fd'' []) ''close PerfReader'' [])
           \<and> pr1 = pr\<lparr>closeOnce := True\<rparr>
           \<and> kern1 = emit (UnixWrite (closeFd pr) (PutUint64 order 1)) kern))
   \<and> (ctxA (closeRun order en1 sched pr kern) = Returned rA
        \<and> ctxB (closeRun order en1 sched pr kern) = Returned rB \<longrightarrow>
        (cReader (closeRun order en1 sched pr kern), cKernel (closeRun order en1 sched pr kern))
          = snd (Close order en1 pr kern)
        \<and> ((rA = fst (Close order en1 pr kern) \<and> rB = None)
            \<or> (rA = None \<and> rB = fst (Close order en1 pr kern))))
   \<and> ((\<exists>a b. ctxA (closeRun order en1 sched pr kern) = Returned a
              \<and> ctxB (closeRun order en1 sched pr kern) = Returned b)
        \<or> closeStep order en1 CtxA (closeRun order en1 sched pr kern)
             \<noteq> closeRun order en1 sched pr kern
        \<or> closeStep order en1 CtxB (closeRun order en1 sched pr kern)
             \<noteq> closeRun order en1 sched pr kern)
   \<and> (ctxA (closeRun order en1 [CtxA, CtxB, CtxA, CtxB, CtxA, CtxA, CtxA, CtxB, CtxB] pr kern)
         = Returned (fst (Close order en1 pr kern))
       \<and> ctxB (closeRun order en1 [CtxA, CtxB, CtxA, CtxB, CtxA, CtxA, CtxA, CtxB, CtxB] pr kern)
         = Returned None)"
proof (intro conjI)
  show "case Close order en1 pr kern of (err1, pr1, kern1) \<Rightarrow>
      Close order en2 pr1 kern1 = (None, pr1, kern1)
      \<and> (\<not> closeOnce pr \<and> env_Write en1 (closeFd pr) = None \<longrightarrow>
           err1 = None
           \<and> pr1 = pr\<lparr>closeOnce := True, epollFd := -1, closeFd := -1, rings := [],
                       pauseFds := None\<rparr>
           \<and> table kern1 = table kern
           \<and> trace kern1 = trace kern
               @ [UnixWrite (closeFd pr) (PutUint64 order 1), UnixClose (epollFd pr),
                  UnixClose (closeFd pr)]
               @ map (\<lambda>ring. RingClose (cpu ring)) (rings pr)
               @ [MapClose (mapFd (array pr))])
      \<and> (\<not> closeOnce pr \<and> env_Write en1 (closeFd pr) = Some e \<longrightarrow>
           err1 = Some (Wrapped (Wrapped e ''can't write event fd'' []) ''close PerfReader'' [])
           \<and> pr1 = pr\<lparr>closeOnce := True\<rparr>
           \<and> kern1 = emit (UnixWrite (closeFd pr) (PutUint64 order 1)) kern)"
    using Close_again [of order en2 en1 pr kern]
    by (auto simp add: Close_success Close_failure emit_def trace_fold_RingClose
          table_fold_RingClose split: prod.splits)
next
  show "ctxA (closeRun order en1 sched pr kern) = Returned rA
        \<and> ctxB (closeRun order en1 sched pr kern) = Returned rB \<longrightarrow>
        (cReader (closeRun order en1 sched pr kern), cKernel (closeRun order en1 sched pr kern))
          = snd (Close order en1 pr kern)
        \<and> ((rA = fst (Close order en1 pr kern) \<and> rB = None)
            \<or> (rA = None \<and> rB = fst (Close order en1 pr kern)))"
    using closeInv_final [OF closeInv_run, of order en1 sched pr kern rA rB] by blast
next
  show "(\<exists>a b. ctxA (closeRun order en1 sched pr kern) = Returned a
              \<and> ctxB (closeRun order en1 sched pr kern) = Returned b)
        \<or> closeStep order en1 CtxA (closeRun order en1 sched pr kern)
             \<noteq> closeRun order en1 sched pr kern
        \<or> closeStep order en1 CtxB (closeRun order en1 sched pr kern)
             \<noteq> closeRun order en1 sched pr kern"
    by (rule closeInv_progress [OF closeInv_run])
next
  show "ctxA (closeRun order en1 [CtxA, CtxB, CtxA, CtxB, CtxA, CtxA, CtxA, CtxB, CtxB] pr kern)
         = Returned (fst (Close order en1 pr kern))"
    using closeRun_interleaved [of order en1 pr kern] by simp
next
  show "ctxB (closeRun order en1 [CtxA, CtxB, CtxA, CtxB, CtxA, CtxA, CtxA, CtxB, CtxB] pr kern)
         = Returned None"
    using closeRun_interleaved [of order en1 pr kern] by simp
qed

theorem Close_twice_witness:
  "fst (Close LittleEndian env_ok reader2 kern_empty) = None
   \<and> fst (Close LittleEndian env_ok (fst (snd (Close LittleEndian env_ok reader2 kern_empty)))
            (snd (snd (Close LittleEndian env_ok reader2 kern_empty)))) = None
   \<and> trace (snd (snd (Close LittleEndian env_ok
              (fst (snd (Close LittleEndian env_ok reader2 kern_empty)))
              (snd (snd (Close LittleEndian env_ok reader2 kern_empty))))))
       = [UnixWrite 20 [1, 0, 0, 0, 0, 0, 0, 0], UnixClose 3, UnixClose 20, RingClose 0,
          RingClose 1, MapClose 30]
   \<and> fst (Close LittleEndian env_write_fails reader2 kern_empty)
       = Some (Wrapped (Wrapped (Errno 11) ''can't write event fd'' []) ''close PerfReader'' [])
   \<and> ctxA (closeRun LittleEndian env_ok [CtxA, CtxB, CtxA, CtxB, CtxA, CtxA, CtxA, CtxB, CtxB]
             reader2 kern_empty) = Returned None
   \<and> ctxB (closeRun LittleEndian env_ok [CtxA, CtxB, CtxA, CtxB, CtxA, CtxA, CtxA, CtxB, CtxB]
             reader2 kern_empty) = Returned None
   \<and> trace (cKernel (closeRun LittleEndian env_ok
                       [CtxA, CtxB, CtxA, CtxB, CtxA, CtxA, CtxA, CtxB, CtxB] reader2 kern_empty))
       = [UnixWrite 20 [1, 0, 0, 0, 0, 0, 0, 0], UnixClose 3, UnixClose 20, RingClose 0,
          RingClose 1, MapClose 30]"
proof -
  let ?sched = "[CtxA, CtxB, CtxA, CtxB, CtxA, CtxA, CtxA, CtxB, CtxB]"
  have a: "\<not> closeOnce reader2 \<and> env_Write env_ok (closeFd reader2) = None"
    by (simp add: reader2_def env_ok_def)
  have b: "\<not> closeOnce reader2 \<and> env_Write env_write_fails (closeFd reader2) = Some (Errno 11)"
    by (simp add: reader2_def env_ok_def env_write_fails_def)
  note ok = Close_twice [where order = LittleEndian and ?en1.0 = env_ok and pr = reader2
         and kern = kern_empty and ?en2.0 = env_ok and sched = ?sched and rA = None and rB = None]
  note bad = Close_twice [where order = LittleEndian and ?en1.0 = env_write_fails and pr = reader2
         and kern = kern_empty and ?en2.0 = env_ok and e = "Errno 11" and sched = "[]"]
  have s: "fst (Close LittleEndian env_ok reader2 kern_empty) = None
     \<and> fst (Close LittleEndian env_ok (fst (snd (Close LittleEndian env_ok reader2 kern_empty)))
            (snd (snd (Close LittleEndian env_ok reader2 kern_empty)))) = None
     \<and> trace (snd (snd (Close LittleEndian env_ok reader2 kern_empty)))
         = [UnixWrite 20 [1, 0, 0, 0, 0, 0, 0, 0], UnixClose 3, UnixClose 20, RingClose 0,
            RingClose 1, MapClose 30]
     \<and> snd (snd (Close LittleEndian env_ok
              (fst (snd (Close LittleEndian env_ok reader2 kern_empty)))
              (snd (snd (Close LittleEndian env_ok reader2 kern_empty)))))
         = snd (snd (Close LittleEndian env_ok reader2 kern_empty))"
    using ok a
    by (auto simp add: PutUint64_one reader2_def kern_empty_def split: prod.splits)
  have f: "fst (Close LittleEndian env_write_fails reader2 kern_empty)
       = Some (Wrapped (Wrapped (Errno 11) ''can't write event fd'' []) ''close PerfReader'' [])"
    using bad [THEN conjunct1] b
    by (cases "Close LittleEndian env_write_fails reader2 kern_empty") simp
  have c: "ctxA (closeRun LittleEndian env_ok ?sched reader2 kern_empty) = Returned None
           \<and> ctxB (closeRun LittleEndian env_ok ?sched reader2 kern_empty) = Returned None"
    using ok s by simp
  with ok have "cKernel (closeRun LittleEndian env_ok ?sched reader2 kern_empty)
                  = snd (snd (Close LittleEndian env_ok reader2 kern_empty))"
    by (simp add: prod_eq_iff)
  with s f c show ?thesis by simp
qed

text \<open>
  C6 as stated fails: when the write of the first \<open>Close\<close> fails, the first call
  returns the error, the second returns no error, and the two together have made no
  call but the failed write: nothing is torn down, and the descriptors stay open.
\<close>

theorem Close_twice_counterexample:
  "fst (Close LittleEndian env_write_fails reader2 kern_empty)
     = Some (Wrapped (Wrapped (Errno 11) ''can't write event fd'' []) ''close PerfReader'' [])
   \<and> snd (Close LittleEndian env_write_fails reader2 kern_empty)
       = (reader2_guarded, kern_after_write)
   \<and> fst (Close LittleEndian env_ok reader2_guarded kern_after_write) = None
   \<and> trace (snd (snd (Close LittleEndian env_ok reader2_guarded kern_after_write)))
       = [UnixWrite 20 [1, 0, 0, 0, 0, 0, 0, 0]]
   \<and> epollFd (fst (snd (Close LittleEndian env_ok reader2_guarded kern_after_write))) = 3"
  by (simp add: Close_write_fails Close_guarded)
     (simp add: kern_after_write_def reader2_guarded_def reader2_def)

subsection \<open>\<open>NewReaderWithOptions\<close>\<close>

text \<open>In \<open>env_ok\<close> the constructor builds \<open>reader2\<close> for a table of two entries.\<close>

lemma NewReader_two:
  "fst (NewReader env_ok \<lparr>mapFd = 5, MaxEntries = 2\<rparr> 4096 kern_empty) = Inr reader2"
  by (simp add: NewReader_def NewReaderWithOptions_def env_ok_def newRings.simps [of _ _ _ _ _ 0]
        newRings.simps [of _ _ _ _ _ "Suc 0"] newRings.simps [of _ _ _ _ _ "Suc (Suc 0)"]
        newPerfEventRing_def addToEpoll_def Wrap_def Wrapf_def MapClone_def Resume_def
        Resume_loop.simps [of _ _ 0] Resume_loop.simps [of _ _ "Suc 0"]
        Resume_loop.simps [of _ _ "Suc (Suc 0)"] MapPut_def reader2_def Let_def)





end
